theory Spec2Isabelle
  imports Complex_Main "HOL-Library.Word"
begin

section \<open>Data model\<close>

text \<open>
  Modelled from the spec: the declaration of \<open>Agent\<close> (agent.h) is not part of the
  sources at hand. The fields are the ones \<open>traffic_simulator.cpp\<close> reads and writes.
  The route buffer \<open>route\<close> is a fixed array; it is a list whose length is the
  capacity \<open>C\<close> of the buffer. Identifiers and counters are unsigned and are natural
  numbers; the floating-point fields are exact reals (rounding is not modelled).
\<close>

record Agent =
  init_intersection :: nat
  end_intersection :: nat
  agent_type :: nat
  active :: nat
  route :: "nat list"
  route_size :: nat
  cum_length :: real
  cum_v :: real
  num_steps :: nat
  slow_down_steps :: nat
  num_lane_change :: nat
  num_steps_in_queue :: nat

text \<open>
  Modelled from the spec: the declaration of the per-merged-edge record \<open>EdgeData\<close> is
  missing too. The two endpoint vertices \<open>vertex[0]\<close>, \<open>vertex[1]\<close>, the two
  non-negative vehicle counts and the cumulative travel-step accumulator.
\<close>

record EdgeData =
  vertex0 :: nat
  vertex1 :: nat
  upstream_veh_count :: nat
  downstream_veh_count :: nat
  period_cum_travel_steps :: real

text \<open>What \<open>route_finding_\<close> prints on \<open>std::cerr\<close>.\<close>

datatype warning =
  LongRoute nat nat   \<comment> \<open>agent index, number of vertices of its path\<close>
| NoRoute nat         \<comment> \<open>agent index\<close>

text \<open>
  The ways in which a call does not return normally. \<open>NoSuchEdge\<close> is the failing
  vertex-pair lookup of the network, \<open>OutOfRange\<close> the exception of \<open>at\<close> on a
  missing key or index. \<open>OutOfBoundsWrite i k mid\<close> is the store
  \<open>agent.route[k] = mid\<close> of agent \<open>i\<close> at an index \<open>k\<close> that is not below the
  capacity of the array, and \<open>AgentIndexOutOfRange\<close> the access \<open>agents[i]\<close> past
  the population: the source executes both unchecked and C++ gives them no meaning,
  so the model stops there and reports the access that was made.
\<close>

datatype error =
  NoSuchEdge nat nat
| OutOfRange nat
| OutOfBoundsWrite nat nat nat
| AgentIndexOutOfRange nat

text \<open>The rows of the two snapshot files. A quotient of floating-point numbers
  whose divisor may be zero is \<open>fval\<close>: finite, infinite or not a number. The clock
  of the simulation driver has its values in the same type.\<close>

datatype fval = Fin real | PosInf | NegInf | NaN

record edge_row =
  er_eid :: nat
  er_u :: nat
  er_v :: nat
  er_upstream_count :: nat
  er_downstream_count :: nat
  er_average_travel_time :: real

record agent_row =
  ar_aid :: nat
  ar_ori :: nat
  ar_dest :: nat
  ar_type :: nat
  ar_status :: nat
  ar_travel_dist :: real
  ar_travel_time :: real
  ar_ave_speed :: fval
  ar_num_slowdown :: nat
  ar_num_lane_change :: nat
  ar_num_in_queue :: nat

datatype csv = EdgeCsv "edge_row list" | AgentCsv "agent_row list"

datatype fname = EdgeFile int | AgentFile int

text \<open>
  The simulator object with its collaborators: the network (\<open>edge_id\<close>,
  \<open>edge_vertices\<close>), the batch query \<open>Routes\<close> of the contraction hierarchy built
  from it, the lanemap (\<open>eid2mid\<close>, \<open>mid2eid\<close> in its enumeration order,
  \<open>edgesData\<close>), the population \<open>agents\<close> of the OD object, the diagnostic stream
  and the files below \<open>save_path_\<close>.
\<close>

record TrafficSimulator =
  edge_id :: "nat \<Rightarrow> nat \<Rightarrow> nat option"
  edge_vertices :: "(nat \<times> nat) list"
  Routes :: "nat list \<Rightarrow> nat list \<Rightarrow> nat list list"
  eid2mid :: "nat \<rightharpoonup> nat"
  mid2eid :: "(nat \<times> nat) list"
  edgesData :: "EdgeData list"
  agents :: "Agent list"
  deltaTime :: real
  cerr :: "warning list"
  files :: "fname \<rightharpoonup> csv"

section \<open>Route assignment\<close>

text \<open>
  The inner loop of \<open>route_finding_\<close> over the consecutive vertices of one path:
  look the edge up, translate it, store it at \<open>route_size\<close> and advance.
\<close>

fun add_route ::
  "(nat \<Rightarrow> nat \<Rightarrow> nat option) \<Rightarrow> (nat \<rightharpoonup> nat) \<Rightarrow> nat \<Rightarrow> nat list \<Rightarrow> Agent \<Rightarrow> error + Agent"
where
  "add_route eidf e2m i (vertex_from # vertex_to # rest) agent =
     (case eidf vertex_from vertex_to of
        None \<Rightarrow> Inl (NoSuchEdge vertex_from vertex_to)
      | Some eid \<Rightarrow>
         (case e2m eid of
            None \<Rightarrow> Inl (OutOfRange eid)
          | Some mid \<Rightarrow>
             if route_size agent < length (route agent)
             then add_route eidf e2m i (vertex_to # rest)
                    (agent\<lparr>route := (route agent)[route_size agent := mid],
                           route_size := route_size agent + 1\<rparr>)
             else Inl (OutOfBoundsWrite i (route_size agent) mid)))"
| "add_route eidf e2m i path agent = Inr agent"

text \<open>The outer loop over the results of the batch query, from index \<open>i\<close> on.\<close>

fun assign_routes ::
  "(nat \<Rightarrow> nat \<Rightarrow> nat option) \<Rightarrow> (nat \<rightharpoonup> nat) \<Rightarrow> nat \<Rightarrow> nat list list \<Rightarrow>
   Agent list \<Rightarrow> warning list \<Rightarrow> error + (Agent list \<times> warning list)"
where
  "assign_routes eidf e2m i [] ags msgs = Inr (ags, msgs)"
| "assign_routes eidf e2m i (p # ps) ags msgs =
     (if i < length ags then
        (if length p = 0
         then assign_routes eidf e2m (i + 1) ps ags
                ((if 100 < length p then msgs @ [LongRoute i (length p)] else msgs) @ [NoRoute i])
         else (case add_route eidf e2m i p (ags ! i) of
                 Inl e \<Rightarrow> Inl e
               | Inr agent \<Rightarrow>
                   assign_routes eidf e2m (i + 1) ps (ags[i := agent])
                     (if 100 < length p then msgs @ [LongRoute i (length p)] else msgs)))
      else Inl (AgentIndexOutOfRange i))"

definition node_sequence :: "TrafficSimulator \<Rightarrow> nat list list" where
  "node_sequence s =
     Routes s (map init_intersection (agents s)) (map end_intersection (agents s))"

definition route_finding :: "TrafficSimulator \<Rightarrow> error + TrafficSimulator" where
  "route_finding s =
     (case assign_routes (edge_id s) (eid2mid s) 0 (node_sequence s) (agents s) (cerr s) of
        Inl e \<Rightarrow> Inl e
      | Inr (ags, msgs) \<Rightarrow> Inr (s\<lparr>agents := ags, cerr := msgs\<rparr>))"

text \<open>What one iteration of the outer loop prints for agent \<open>i\<close> with path \<open>p\<close>.\<close>

definition route_warnings :: "nat \<Rightarrow> nat list \<Rightarrow> warning list" where
  "route_warnings i p =
     (if 100 < length p then [LongRoute i (length p)] else []) @
     (if length p = 0 then [NoRoute i] else [])"

text \<open>
  The entries that a run stored into the route buffer of an agent: the ones between the
  old and the new \<open>route_size\<close>. Mapping a merged-edge id back: through
  \<open>mid2eid\<close> to the graph edge id, and through the edge list of the network to its
  ordered vertex pair.
\<close>

definition written :: "Agent \<Rightarrow> Agent \<Rightarrow> nat list" where
  "written a a' = take (route_size a' - route_size a) (drop (route_size a) (route a'))"

definition resolve :: "TrafficSimulator \<Rightarrow> nat \<Rightarrow> (nat \<times> nat) option" where
  "resolve s mid =
     (case map_of (mid2eid s) mid of
        None \<Rightarrow> None
      | Some eid \<Rightarrow>
          if eid < length (edge_vertices s) then Some (edge_vertices s ! eid) else None)"

section \<open>Snapshot writer\<close>

text \<open>
  The average travel time of \<open>save_edges\<close>: the quotient is taken only behind the test
  of the downstream count, and \<open>-1\<close> stands for no data.
\<close>

definition ave_time :: "real \<Rightarrow> EdgeData \<Rightarrow> real" where
  "ave_time dt edge_data =
     (if 0 < downstream_veh_count edge_data
      then (period_cum_travel_steps edge_data / real (downstream_veh_count edge_data)) * dt
      else - 1)"

text \<open>
  The loop of \<open>save_edges\<close> over \<open>mid2eid\<close>, in its order. \<open>edgesData.at(mid)\<close>
  throws when \<open>mid\<close> is no index of the array.
\<close>

fun edge_rows :: "real \<Rightarrow> EdgeData list \<Rightarrow> (nat \<times> nat) list \<Rightarrow> error + edge_row list" where
  "edge_rows dt ed [] = Inr []"
| "edge_rows dt ed ((mid, eid) # rest) =
     (if mid < length ed then
        (case edge_rows dt ed rest of
           Inl e \<Rightarrow> Inl e
         | Inr rows \<Rightarrow>
             Inr (\<lparr>er_eid = eid, er_u = vertex0 (ed ! mid), er_v = vertex1 (ed ! mid),
                   er_upstream_count = upstream_veh_count (ed ! mid),
                   er_downstream_count = downstream_veh_count (ed ! mid),
                   er_average_travel_time = ave_time dt (ed ! mid)\<rparr> # rows))
      else Inl (OutOfRange mid))"

definition save_edges :: "TrafficSimulator \<Rightarrow> int \<Rightarrow> error + TrafficSimulator" where
  "save_edges s current_time =
     (case edge_rows (deltaTime s) (edgesData s) (mid2eid s) of
        Inl e \<Rightarrow> Inl e
      | Inr rows \<Rightarrow> Inr (s\<lparr>files := (files s)(EdgeFile current_time \<mapsto> EdgeCsv rows)\<rparr>))"

text \<open>
  A floating-point quotient whose divisor is not tested: by zero it is not a number for a
  zero dividend, and infinite with the sign of the dividend otherwise.
\<close>

definition fdiv :: "real \<Rightarrow> real \<Rightarrow> fval" where
  "fdiv x y =
     (if y = 0 then (if x = 0 then NaN else if 0 < x then PosInf else NegInf)
      else Fin (x / y))"

text \<open>
  The row of \<open>save_agents\<close> for the agent at index \<open>i\<close>, and the loop over the
  population; \<open>agents.at(i)\<close> is always in range there.
\<close>

definition agent_record :: "real \<Rightarrow> nat \<Rightarrow> Agent \<Rightarrow> agent_row" where
  "agent_record dt i agent =
     \<lparr>ar_aid = i, ar_ori = init_intersection agent, ar_dest = end_intersection agent,
      ar_type = agent_type agent, ar_status = active agent,
      ar_travel_dist = cum_length agent, ar_travel_time = real (num_steps agent) * dt,
      ar_ave_speed = fdiv (cum_v agent) (real (num_steps agent)),
      ar_num_slowdown = slow_down_steps agent, ar_num_lane_change = num_lane_change agent,
      ar_num_in_queue = num_steps_in_queue agent\<rparr>"

definition agent_rows :: "real \<Rightarrow> Agent list \<Rightarrow> agent_row list" where
  "agent_rows dt ags = map (\<lambda>i. agent_record dt i (ags ! i)) [0..<length ags]"

definition save_agents :: "TrafficSimulator \<Rightarrow> int \<Rightarrow> TrafficSimulator" where
  "save_agents s current_time =
     s\<lparr>files := (files s)(AgentFile current_time \<mapsto> AgentCsv (agent_rows (deltaTime s) (agents s)))\<rparr>"

text \<open>A checkpoint writes the edges, then the agents, for the same time.\<close>

definition snapshot :: "TrafficSimulator \<Rightarrow> int \<Rightarrow> error + TrafficSimulator" where
  "snapshot s current_time =
     (case save_edges s current_time of
        Inl e \<Rightarrow> Inl e
      | Inr s' \<Rightarrow> Inr (save_agents s' current_time))"

section \<open>Binary32 arithmetic\<close>

text \<open>
  \<open>startTime\<close> and \<open>endTime\<close> are \<open>float\<close>, and the loop of \<open>simulateInGPU\<close>
  decides by their values: they are modelled as binary32 numbers, a value \<open>Fin x\<close>
  with \<open>x\<close> representable, an infinity or not a number, and every operation rounds
  its exact result to the nearest binary32 number, a tie to the one with the even
  significand. Modelled from the spec: \<open>deltaTime_\<close> is declared in the header, which
  is not among the sources; it is taken to be a \<open>float\<close> like the clock it is added
  to. The two zeros of the format are not told apart.

  The exponent of the binary32 interval that holds a magnitude \<open>a\<close>: the first \<open>e\<close>
  from \<open>-126\<close>, the exponent of the subnormal numbers, with \<open>a < 2^(e+1)\<close>; beyond
  the largest exponent 127 every number rounds to an infinity.
\<close>

definition exponent32 :: "real \<Rightarrow> int" where
  "exponent32 a =
     (case List.find (\<lambda>e. a < 2 powi (e + 1)) [- 126..127] of Some e \<Rightarrow> e | None \<Rightarrow> 128)"

text \<open>The nearest integer, a tie to the even one.\<close>

definition round_even :: "real \<Rightarrow> int" where
  "round_even q =
     (if q - of_int \<lfloor>q\<rfloor> < 1 / 2 then \<lfloor>q\<rfloor>
      else if 1 / 2 < q - of_int \<lfloor>q\<rfloor> then \<lfloor>q\<rfloor> + 1
      else if even \<lfloor>q\<rfloor> then \<lfloor>q\<rfloor> else \<lfloor>q\<rfloor> + 1)"

text \<open>
  Rounding to binary32: the significand has 24 bits, so that the numbers of the interval
  with exponent \<open>e\<close> are the multiples of \<open>2^(e-23)\<close>; a result of magnitude
  \<open>2^128\<close> is an infinity.
\<close>

definition round32 :: "real \<Rightarrow> fval" where
  "round32 x =
     (if (2::real) ^ 128 \<le> \<bar>of_int (round_even (x / 2 powi (exponent32 \<bar>x\<bar> - 23))) *
                              2 powi (exponent32 \<bar>x\<bar> - 23)\<bar>
      then (if 0 < x then PosInf else NegInf)
      else Fin (of_int (round_even (x / 2 powi (exponent32 \<bar>x\<bar> - 23))) *
                2 powi (exponent32 \<bar>x\<bar> - 23)))"

text \<open>Sum, comparison and quotient of binary32 numbers, with the IEEE rules for
  infinities and for what is not a number.\<close>

fun f32_add :: "fval \<Rightarrow> fval \<Rightarrow> fval" where
  "f32_add (Fin x) (Fin y) = round32 (x + y)"
| "f32_add NaN y = NaN"
| "f32_add x NaN = NaN"
| "f32_add PosInf NegInf = NaN"
| "f32_add NegInf PosInf = NaN"
| "f32_add PosInf y = PosInf"
| "f32_add x PosInf = PosInf"
| "f32_add NegInf y = NegInf"
| "f32_add x NegInf = NegInf"

fun f32_less :: "fval \<Rightarrow> fval \<Rightarrow> bool" where
  "f32_less (Fin x) (Fin y) = (x < y)"
| "f32_less NaN y = False"
| "f32_less x NaN = False"
| "f32_less x NegInf = False"
| "f32_less NegInf y = True"
| "f32_less PosInf y = False"
| "f32_less x PosInf = True"

fun f32_div :: "fval \<Rightarrow> fval \<Rightarrow> fval" where
  "f32_div (Fin x) (Fin y) =
     (if y = 0 then (if x = 0 then NaN else if 0 < x then PosInf else NegInf)
      else round32 (x / y))"
| "f32_div NaN y = NaN"
| "f32_div x NaN = NaN"
| "f32_div (Fin x) y = Fin 0"
| "f32_div PosInf (Fin y) = (if 0 \<le> y then PosInf else NegInf)"
| "f32_div NegInf (Fin y) = (if 0 \<le> y then NegInf else PosInf)"
| "f32_div x y = NaN"

text \<open>
  The conversion of an \<open>int\<close> to \<open>float\<close> rounds. The conversion of a \<open>float\<close> to
  \<open>int\<close> cuts the fraction off; it has no value for an infinity, for what is not a
  number and outside the range of a 32-bit \<open>int\<close>, where C++ leaves it undefined.
\<close>

definition f32_of_int :: "int \<Rightarrow> fval" where
  "f32_of_int i = round32 (of_int i)"

definition trunc :: "real \<Rightarrow> int" where
  "trunc x = (if 0 \<le> x then \<lfloor>x\<rfloor> else \<lceil>x\<rceil>)"

fun int_of_f32 :: "fval \<Rightarrow> int option" where
  "int_of_f32 (Fin x) =
     (if - (2 ^ 31) \<le> trunc x \<and> trunc x < 2 ^ 31 then Some (trunc x) else None)"
| "int_of_f32 x = None"

section \<open>Simulation driver\<close>

text \<open>
  The calls that \<open>simulateInGPU\<close> makes, in their order: the device operations and the
  two snapshot writers with the time they are given. A run ends by leaving the loop, by
  taking the step counter modulo zero, at a conversion to \<open>int\<close> that has no value, or
  with the exception of a snapshot writer; C++ defines neither the second nor the third.
\<close>

datatype event =
  InitCuda | CudaSimulate fval | CudaGetData | SaveEdges int | SaveAgents int | FinishCuda

datatype run_status = Finished | ModuloByZero | ConversionUndefined | Thrown error

text \<open>
  The device operations are collaborators, not part of the sources: they are parameters.
  \<open>init_cuda\<close> builds the device state from the host arrays, \<open>cuda_simulate\<close> makes
  one step at the given time for the given number of agents and time step (the number
  of intersections and the sizes of the grid, which it is given as well, do not change
  during a run), and \<open>cuda_get_data\<close> gives the agents and edge records that it copies
  back over the host arrays.
\<close>

record 'd device =
  init_cuda :: "Agent list \<Rightarrow> EdgeData list \<Rightarrow> 'd"
  cuda_simulate :: "fval \<Rightarrow> nat \<Rightarrow> fval \<Rightarrow> 'd \<Rightarrow> 'd"
  cuda_get_data :: "'d \<Rightarrow> Agent list \<Rightarrow> EdgeData list \<Rightarrow> Agent list \<times> EdgeData list"

text \<open>The variables of the loop: the clock, the step counter (an \<open>unsigned int\<close>),
  the device, the simulator object on the host, and the calls made so far.\<close>

record 'd run =
  startTime :: fval
  simulations_steps :: "32 word"
  gpu :: 'd
  host :: TrafficSimulator
  calls :: "event list"

type_synonym outcome = "event list \<times> run_status \<times> TrafficSimulator"

text \<open>\<open>int num_save_steps = save_interval / deltaTime_\<close>: the interval is converted
  to \<open>float\<close>, divided, and the quotient converted to \<open>int\<close>.\<close>

definition num_save_steps :: "fval \<Rightarrow> int \<Rightarrow> int option" where
  "num_save_steps dt save_interval = int_of_f32 (f32_div (f32_of_int save_interval) dt)"

text \<open>The host after \<open>cuda_get_data\<close>.\<close>

definition retrieved :: "'d device \<Rightarrow> 'd \<Rightarrow> TrafficSimulator \<Rightarrow> TrafficSimulator" where
  "retrieved dev d s =
     s\<lparr>agents := fst (cuda_get_data dev d (agents s) (edgesData s)),
       edgesData := snd (cuda_get_data dev d (agents s) (edgesData s))\<rparr>"

text \<open>
  One iteration of the loop: the device step, the step counter and the clock advance,
  and, where the counter is a multiple of \<open>num_save_steps\<close> (converted to
  \<open>unsigned int\<close> for the remainder), the retrieval and the two snapshot writers,
  called with the clock converted to \<open>int\<close>. The iteration either leaves the run
  (\<open>Inl\<close>) or gives the variables for the next one (\<open>Inr\<close>).
\<close>

definition loop_body :: "'d device \<Rightarrow> fval \<Rightarrow> 32 word \<Rightarrow> 'd run \<Rightarrow> outcome + 'd run" where
  "loop_body dev dt k r =
     (if k = 0 then Inl (calls r @ [CudaSimulate (startTime r)], ModuloByZero, host r)
      else if (simulations_steps r + 1) mod k = 0 then
        (case int_of_f32 (f32_add (startTime r) dt) of
           None \<Rightarrow>
             Inl (calls r @ [CudaSimulate (startTime r), CudaGetData], ConversionUndefined,
                  retrieved dev
                    (cuda_simulate dev (startTime r) (length (agents (host r))) dt (gpu r))
                    (host r))
         | Some current_time \<Rightarrow>
             (case save_edges
                     (retrieved dev
                        (cuda_simulate dev (startTime r) (length (agents (host r))) dt (gpu r))
                        (host r)) current_time of
                Inl e \<Rightarrow>
                  Inl (calls r @ [CudaSimulate (startTime r), CudaGetData, SaveEdges current_time],
                       Thrown e,
                       retrieved dev
                         (cuda_simulate dev (startTime r) (length (agents (host r))) dt (gpu r))
                         (host r))
              | Inr saved \<Rightarrow>
                  Inr \<lparr>startTime = f32_add (startTime r) dt,
                       simulations_steps = simulations_steps r + 1,
                       gpu = cuda_simulate dev (startTime r) (length (agents (host r))) dt (gpu r),
                       host = save_agents saved current_time,
                       calls = calls r @ [CudaSimulate (startTime r), CudaGetData,
                                          SaveEdges current_time, SaveAgents current_time]\<rparr>))
      else
        Inr \<lparr>startTime = f32_add (startTime r) dt,
             simulations_steps = simulations_steps r + 1,
             gpu = cuda_simulate dev (startTime r) (length (agents (host r))) dt (gpu r),
             host = host r,
             calls = calls r @ [CudaSimulate (startTime r)]\<rparr>)"

text \<open>
  The loop. Where the clock never reaches \<open>endTime\<close>, as with a time step that the
  clock absorbs, it does not end and the function has no value.
\<close>

partial_function (option) main_loop ::
  "'d device \<Rightarrow> fval \<Rightarrow> 32 word \<Rightarrow> fval \<Rightarrow> 'd run \<Rightarrow> outcome option"
where
  "main_loop dev dt k endTime r =
     (if f32_less (startTime r) endTime then
        (case loop_body dev dt k r of
           Inl stopped \<Rightarrow> Some stopped
         | Inr r' \<Rightarrow> main_loop dev dt k endTime r')
      else Some (calls r, Finished, host r))"

text \<open>
  \<open>simulateInGPU\<close>: the device is initialised, then \<open>num_save_steps\<close> is computed,
  the loop runs from \<open>start\<close> (the parameter \<open>startTime\<close>, which is also the clock),
  and the device is released.
\<close>

definition simulateInGPU ::
  "'d device \<Rightarrow> TrafficSimulator \<Rightarrow> fval \<Rightarrow> fval \<Rightarrow> int \<Rightarrow> outcome option"
where
  "simulateInGPU dev s start endTime save_interval =
     (case num_save_steps (Fin (deltaTime s)) save_interval of
        None \<Rightarrow> Some ([InitCuda], ConversionUndefined, s)
      | Some k \<Rightarrow>
          (case main_loop dev (Fin (deltaTime s)) (word_of_int k) endTime
                  \<lparr>startTime = start, simulations_steps = 0,
                   gpu = init_cuda dev (agents s) (edgesData s), host = s,
                   calls = [InitCuda]\<rparr> of
             None \<Rightarrow> None
           | Some (tr, Finished, s') \<Rightarrow> Some (tr @ [FinishCuda], Finished, s')
           | Some stopped \<Rightarrow> Some stopped))"

text \<open>
  For the statements about a run: its calls and status without the final host; the clock
  after \<open>j\<close> iterations; and the calls of the iteration number \<open>j\<close>, counted from 0,
  of a loop that starts at time \<open>t0\<close> with the step counter \<open>s0\<close>.
\<close>

definition trace_of :: "outcome option \<Rightarrow> (event list \<times> run_status) option" where
  "trace_of res = map_option (\<lambda>(tr, status, s). (tr, status)) res"

definition clock :: "fval \<Rightarrow> fval \<Rightarrow> nat \<Rightarrow> fval" where
  "clock dt t0 j = ((\<lambda>t. f32_add t dt) ^^ j) t0"

definition iteration :: "fval \<Rightarrow> 32 word \<Rightarrow> fval \<Rightarrow> 32 word \<Rightarrow> nat \<Rightarrow> event list" where
  "iteration dt k t0 s0 j =
     CudaSimulate (clock dt t0 j) #
     (if (s0 + of_nat (j + 1)) mod k = 0
      then [CudaGetData, SaveEdges (the (int_of_f32 (clock dt t0 (j + 1)))),
            SaveAgents (the (int_of_f32 (clock dt t0 (j + 1))))]
      else [])"

section \<open>A network of four vertices on a line\<close>


text \<open>
  Vertices 0 to 3 with the edges 0-1, 1-2 and 2-3, numbered 0, 1 and 2 and mapped to the
  merged edges 10, 11 and 12. Three agents: from 0 to 3, from 0 to 0, and from 3 to 0,
  where no path exists. Every route buffer has capacity 8.
\<close>

definition line_edge_id :: "nat \<Rightarrow> nat \<Rightarrow> nat option" where
  "line_edge_id u v = (if v = u + 1 \<and> u < 3 then Some u else None)"

definition line_routes :: "nat list \<Rightarrow> nat list \<Rightarrow> nat list list" where
  "line_routes sources targets =
     map (\<lambda>(u, v). if u \<le> v then [u..<v + 1] else []) (zip sources targets)"

definition new_agent :: "nat \<Rightarrow> nat \<Rightarrow> Agent" where
  "new_agent u v =
     \<lparr>init_intersection = u, end_intersection = v, agent_type = 0, active = 0,
      route = [0, 0, 0, 0, 0, 0, 0, 0], route_size = 0, cum_length = 0, cum_v = 0,
      num_steps = 0, slow_down_steps = 0, num_lane_change = 0, num_steps_in_queue = 0\<rparr>"

definition line_sim :: TrafficSimulator where
  "line_sim =
     \<lparr>edge_id = line_edge_id, edge_vertices = [(0, 1), (1, 2), (2, 3)],
      Routes = line_routes, eid2mid = [0 \<mapsto> 10, 1 \<mapsto> 11, 2 \<mapsto> 12],
      mid2eid = [(10, 0), (11, 1), (12, 2)],
      edgesData = [],
      agents = [new_agent 0 3, new_agent 0 0, new_agent 3 0],
      deltaTime = 1, cerr = [], files = Map.empty\<rparr>"

text \<open>The population after one run of the route assignment, and after two.\<close>

definition line_routed :: "Agent list" where
  "line_routed =
     [(new_agent 0 3)\<lparr>route := [10, 11, 12, 0, 0, 0, 0, 0], route_size := 3\<rparr>,
      new_agent 0 0, new_agent 3 0]"

definition line_done :: TrafficSimulator where
  "line_done = line_sim\<lparr>agents := line_routed, cerr := [NoRoute 2]\<rparr>"

definition line_twice :: "Agent list" where
  "line_twice =
     [(new_agent 0 3)\<lparr>route := [10, 11, 12, 10, 11, 12, 0, 0], route_size := 6\<rparr>,
      new_agent 0 0, new_agent 3 0]"

definition line_done2 :: TrafficSimulator where
  "line_done2 = line_done\<lparr>agents := line_twice, cerr := [NoRoute 2, NoRoute 2]\<rparr>"

text \<open>The same network with one agent whose route buffer has capacity 2.\<close>

definition short_sim :: TrafficSimulator where
  "short_sim = line_sim\<lparr>agents := [(new_agent 0 3)\<lparr>route := [0, 0]\<rparr>]\<rparr>"

text \<open>
  Two merged edges for the snapshot writer, the first with no vehicle downstream, the
  second with four vehicles and ten travel steps; the time step is half a second.
\<close>

definition two_edges :: TrafficSimulator where
  "two_edges = line_sim
     \<lparr>mid2eid := [(0, 5), (1, 7)],
      edgesData :=
        [\<lparr>vertex0 = 0, vertex1 = 1, upstream_veh_count = 2, downstream_veh_count = 0,
          period_cum_travel_steps = 0\<rparr>,
         \<lparr>vertex0 = 1, vertex1 = 2, upstream_veh_count = 6, downstream_veh_count = 4,
          period_cum_travel_steps = 10\<rparr>],
      deltaTime := 1 / 2\<rparr>"

text \<open>
  A device that computes nothing and gives back the host arrays as they are; the two
  merged edges with a time step of 2 seconds; and the calls of two runs on that device:
  from 0 to 3/4 with a step of half a second and an interval of one second, and from 0 to
  10 with a step of 2 seconds and an interval of 3 seconds.
\<close>

definition idle_device :: "unit device" where
  "idle_device =
     \<lparr>init_cuda = (\<lambda>ags eds. ()), cuda_simulate = (\<lambda>t n dt d. d),
      cuda_get_data = (\<lambda>d ags eds. (ags, eds))\<rparr>"

definition slow_edges :: TrafficSimulator where
  "slow_edges = two_edges\<lparr>deltaTime := 2\<rparr>"

definition half_second_trace :: "event list" where
  "half_second_trace =
     [InitCuda, CudaSimulate (Fin 0), CudaSimulate (Fin (1 / 2)), CudaGetData, SaveEdges 1,
      SaveAgents 1, FinishCuda]"

definition two_second_trace :: "event list" where
  "two_second_trace =
     [InitCuda,
      CudaSimulate (Fin 0), CudaGetData, SaveEdges 2, SaveAgents 2,
      CudaSimulate (Fin 2), CudaGetData, SaveEdges 4, SaveAgents 4,
      CudaSimulate (Fin 4), CudaGetData, SaveEdges 6, SaveAgents 6,
      CudaSimulate (Fin 6), CudaGetData, SaveEdges 8, SaveAgents 8,
      CudaSimulate (Fin 8), CudaGetData, SaveEdges 10, SaveAgents 10,
      FinishCuda]"

section \<open>Facts about the inner loop\<close>

lemma add_route_step:
  assumes "add_route eidf e2m i (vertex_from # vertex_to # rest) agent = Inr a'"
  obtains eid mid where "eidf vertex_from vertex_to = Some eid" "e2m eid = Some mid"
    "route_size agent < length (route agent)"
    "add_route eidf e2m i (vertex_to # rest)
       (agent\<lparr>route := (route agent)[route_size agent := mid],
              route_size := route_size agent + 1\<rparr>) = Inr a'"
  using assms by (simp split: option.splits if_splits)

lemma add_route_size:
  "add_route eidf e2m i p a = Inr a' \<Longrightarrow>
     route_size a' = route_size a + (length p - 1) \<and> length (route a') = length (route a)"
proof (induction eidf e2m i p a arbitrary: a' rule: add_route.induct)
  case (1 eidf e2m i vertex_from vertex_to rest agent)
  from "1.prems"(1) obtain eid mid where
    e: "eidf vertex_from vertex_to = Some eid" and m: "e2m eid = Some mid"
    and c: "route_size agent < length (route agent)"
    and r: "add_route eidf e2m i (vertex_to # rest)
              (agent\<lparr>route := (route agent)[route_size agent := mid],
                     route_size := route_size agent + 1\<rparr>) = Inr a'"
    by (rule add_route_step)
  from "1.IH" [OF e m c r] show ?case by simp
qed simp_all

lemma add_route_fields:
  "add_route eidf e2m i p a = Inr a' \<Longrightarrow>
     a' = a\<lparr>route := route a', route_size := route_size a'\<rparr>"
proof (induction eidf e2m i p a arbitrary: a' rule: add_route.induct)
  case (1 eidf e2m i vertex_from vertex_to rest agent)
  from "1.prems"(1) obtain eid mid where
    e: "eidf vertex_from vertex_to = Some eid" and m: "e2m eid = Some mid"
    and c: "route_size agent < length (route agent)"
    and r: "add_route eidf e2m i (vertex_to # rest)
              (agent\<lparr>route := (route agent)[route_size agent := mid],
                     route_size := route_size agent + 1\<rparr>) = Inr a'"
    by (rule add_route_step)
  from "1.IH" [OF e m c r] show ?case by simp
qed simp_all

lemma add_route_outside:
  "add_route eidf e2m i p a = Inr a' \<Longrightarrow> k < route_size a \<or> route_size a' \<le> k \<Longrightarrow>
     route a' ! k = route a ! k"
proof (induction eidf e2m i p a arbitrary: a' rule: add_route.induct)
  case (1 eidf e2m i vertex_from vertex_to rest agent)
  from "1.prems"(1) obtain eid mid where
    e: "eidf vertex_from vertex_to = Some eid" and m: "e2m eid = Some mid"
    and c: "route_size agent < length (route agent)"
    and r: "add_route eidf e2m i (vertex_to # rest)
              (agent\<lparr>route := (route agent)[route_size agent := mid],
                     route_size := route_size agent + 1\<rparr>) = Inr a'"
    by (rule add_route_step)
  from add_route_size [OF r] have s: "route_size agent + 1 \<le> route_size a'" by simp
  from "1.prems"(2) s have "k < route_size agent + 1 \<or> route_size a' \<le> k" by auto
  with "1.IH" [OF e m c r] have "route a' ! k = (route agent)[route_size agent := mid] ! k"
    by simp
  moreover from "1.prems"(2) s have "k \<noteq> route_size agent" by auto
  ultimately show ?case by simp
qed simp_all

lemma add_route_written:
  "add_route eidf e2m i p a = Inr a' \<Longrightarrow> j + 1 < length p \<Longrightarrow>
     \<exists>eid. eidf (p ! j) (p ! (j + 1)) = Some eid \<and>
           e2m eid = Some (route a' ! (route_size a + j))"
proof (induction eidf e2m i p a arbitrary: a' j rule: add_route.induct)
  case (1 eidf e2m i vertex_from vertex_to rest agent)
  from "1.prems"(1) obtain eid mid where
    e: "eidf vertex_from vertex_to = Some eid" and m: "e2m eid = Some mid"
    and c: "route_size agent < length (route agent)"
    and r: "add_route eidf e2m i (vertex_to # rest)
              (agent\<lparr>route := (route agent)[route_size agent := mid],
                     route_size := route_size agent + 1\<rparr>) = Inr a'"
    by (rule add_route_step)
  show ?case
  proof (cases j)
    case 0
    have "route a' ! route_size agent = (route agent)[route_size agent := mid] ! route_size agent"
      using add_route_outside [OF r, of "route_size agent"] by simp
    with c e m 0 show ?thesis by simp
  next
    case (Suc j')
    with "1.prems"(2) have "j' + 1 < length (vertex_to # rest)" by simp
    from "1.IH" [OF e m c r this] Suc show ?thesis by simp
  qed
qed simp_all

section \<open>Facts about the outer loop\<close>

lemma assign_routes_agents:
  "assign_routes eidf e2m i ps ags msgs = Inr (ags', msgs') \<Longrightarrow>
     length ags' = length ags \<and>
     (\<forall>k. k < i \<or> i + length ps \<le> k \<longrightarrow> ags' ! k = ags ! k) \<and>
     (\<forall>j<length ps. i + j < length ags \<and>
        add_route eidf e2m (i + j) (ps ! j) (ags ! (i + j)) = Inr (ags' ! (i + j)))"
proof (induction ps arbitrary: i ags msgs)
  case Nil
  then show ?case by simp
next
  case (Cons p ps)
  from Cons.prems have i: "i < length ags" by (simp split: if_splits)
  obtain agent msgs1 where a: "add_route eidf e2m i p (ags ! i) = Inr agent"
    and r: "assign_routes eidf e2m (i + 1) ps (ags[i := agent]) msgs1 = Inr (ags', msgs')"
  proof (cases "length p = 0")
    case True
    with Cons.prems i that [of "ags ! i"] show ?thesis by simp
  next
    case False
    with Cons.prems i that show ?thesis by (simp split: sum.splits)
  qed
  note IH = Cons.IH [OF r]
  from IH have len: "length ags' = length ags" by simp
  have out: "ags' ! k = ags ! k" if "k < i \<or> i + length (p # ps) \<le> k" for k
  proof -
    from that have "k < i + 1 \<or> i + 1 + length ps \<le> k" by auto
    with IH have "ags' ! k = ags[i := agent] ! k" by blast
    moreover from that have "k \<noteq> i" by auto
    ultimately show ?thesis by simp
  qed
  have inn: "i + j < length ags \<and>
        add_route eidf e2m (i + j) ((p # ps) ! j) (ags ! (i + j)) = Inr (ags' ! (i + j))"
    if "j < length (p # ps)" for j
  proof (cases j)
    case 0
    from IH have "ags' ! i = ags[i := agent] ! i" by simp
    with i a 0 show ?thesis by simp
  next
    case (Suc j')
    with that have "j' < length ps" by simp
    with IH have "i + 1 + j' < length (ags[i := agent]) \<and>
      add_route eidf e2m (i + 1 + j') (ps ! j') (ags[i := agent] ! (i + 1 + j'))
        = Inr (ags' ! (i + 1 + j'))" by blast
    with Suc show ?thesis by simp
  qed
  from len out inn show ?case by blast
qed

lemma assign_routes_msgs:
  "assign_routes eidf e2m i ps ags msgs = Inr (ags', msgs') \<Longrightarrow>
     msgs' = msgs @ concat (map (\<lambda>j. route_warnings (i + j) (ps ! j)) [0..<length ps])"
proof (induction ps arbitrary: i ags msgs)
  case Nil
  then show ?case by simp
next
  case (Cons p ps)
  from Cons.prems have i: "i < length ags" by (simp split: if_splits)
  obtain ags1 where
    r: "assign_routes eidf e2m (i + 1) ps ags1 (msgs @ route_warnings i p) = Inr (ags', msgs')"
  proof (cases "length p = 0")
    case True
    with Cons.prems i that [of ags] show ?thesis by (simp add: route_warnings_def)
  next
    case False
    with Cons.prems i that show ?thesis
      by (simp add: route_warnings_def split: sum.splits if_splits)
  qed
  have "[0..<length (p # ps)] = 0 # map Suc [0..<length ps]"
    by (simp add: upt_conv_Cons map_Suc_upt del: upt_Suc)
  with Cons.IH [OF r] show ?case by (simp add: comp_def del: upt_Suc)
qed

lemma count_route_warnings:
  "count_list (route_warnings j p) (NoRoute k) = (if j = k \<and> p = [] then 1 else 0)"
  by (simp add: route_warnings_def)

lemma count_concat_upt:
  "count_list (concat (map f [0..<n])) x = (\<Sum>j<n. count_list (f j) x)"
  by (induction n) simp_all

lemma add_route_bound:
  "add_route eidf e2m i p a = Inr a' \<Longrightarrow> 2 \<le> length p \<Longrightarrow>
     route_size a' \<le> length (route a)"
proof (induction eidf e2m i p a arbitrary: a' rule: add_route.induct)
  case (1 eidf e2m i vertex_from vertex_to rest agent)
  from "1.prems"(1) obtain eid mid where
    e: "eidf vertex_from vertex_to = Some eid" and m: "e2m eid = Some mid"
    and c: "route_size agent < length (route agent)"
    and r: "add_route eidf e2m i (vertex_to # rest)
              (agent\<lparr>route := (route agent)[route_size agent := mid],
                     route_size := route_size agent + 1\<rparr>) = Inr a'"
    by (rule add_route_step)
  show ?case
  proof (cases rest)
    case Nil
    with r have "a' = agent\<lparr>route := (route agent)[route_size agent := mid],
                          route_size := route_size agent + 1\<rparr>" by simp
    with c show ?thesis by simp
  next
    case (Cons w ws)
    then have "2 \<le> length (vertex_to # rest)" by simp
    from "1.IH" [OF e m c r this] show ?thesis by simp
  qed
qed simp_all

lemma route_finding_Inr:
  assumes "route_finding s = Inr s'"
  obtains ags msgs where
    "assign_routes (edge_id s) (eid2mid s) 0 (node_sequence s) (agents s) (cerr s) = Inr (ags, msgs)"
    "s' = s\<lparr>agents := ags, cerr := msgs\<rparr>"
  using assms by (auto simp: route_finding_def split: sum.splits)

lemma route_finding_agent:
  assumes "route_finding s = Inr s'" and "i < length (node_sequence s)"
  shows "i < length (agents s) \<and> length (agents s') = length (agents s) \<and>
    add_route (edge_id s) (eid2mid s) i (node_sequence s ! i) (agents s ! i) = Inr (agents s' ! i)"
proof -
  from assms(1) obtain ags msgs where
    a: "assign_routes (edge_id s) (eid2mid s) 0 (node_sequence s) (agents s) (cerr s) = Inr (ags, msgs)"
    and s': "s' = s\<lparr>agents := ags, cerr := msgs\<rparr>"
    by (rule route_finding_Inr)
  from assign_routes_agents [OF a] assms(2) s' show ?thesis by simp
qed

lemma route_finding_cerr:
  assumes "route_finding s = Inr s'"
  shows "cerr s' = cerr s @
    concat (map (\<lambda>j. route_warnings j (node_sequence s ! j)) [0..<length (node_sequence s)])"
proof -
  from assms(1) obtain ags msgs where
    a: "assign_routes (edge_id s) (eid2mid s) 0 (node_sequence s) (agents s) (cerr s) = Inr (ags, msgs)"
    and s': "s' = s\<lparr>agents := ags, cerr := msgs\<rparr>"
    by (rule route_finding_Inr)
  from assign_routes_msgs [OF a] s' show ?thesis by simp
qed

lemma route_finding_frame:
  assumes "route_finding s = Inr s'"
  shows "edge_id s' = edge_id s \<and> eid2mid s' = eid2mid s \<and> Routes s' = Routes s \<and>
    length (agents s') = length (agents s) \<and>
    (\<forall>k. length (node_sequence s) \<le> k \<longrightarrow> agents s' ! k = agents s ! k)"
proof -
  from assms(1) obtain ags msgs where
    a: "assign_routes (edge_id s) (eid2mid s) 0 (node_sequence s) (agents s) (cerr s) = Inr (ags, msgs)"
    and s': "s' = s\<lparr>agents := ags, cerr := msgs\<rparr>"
    by (rule route_finding_Inr)
  from assign_routes_agents [OF a] s' show ?thesis by simp
qed

lemma route_finding_endpoints:
  assumes run: "route_finding s = Inr s'"
  shows "init_intersection (agents s' ! k) = init_intersection (agents s ! k) \<and>
         end_intersection (agents s' ! k) = end_intersection (agents s ! k)"
proof (cases "k < length (node_sequence s)")
  case True
  from route_finding_agent [OF run True]
  have "add_route (edge_id s) (eid2mid s) k (node_sequence s ! k) (agents s ! k) =
      Inr (agents s' ! k)" by simp
  from add_route_fields [OF this] have
    "agents s' ! k = (agents s ! k)\<lparr>route := route (agents s' ! k),
        route_size := route_size (agents s' ! k)\<rparr>" .
  then have "init_intersection (agents s' ! k) = init_intersection ((agents s ! k)\<lparr>route := route (agents s' ! k),
        route_size := route_size (agents s' ! k)\<rparr>) \<and> end_intersection (agents s' ! k) = end_intersection ((agents s ! k)\<lparr>route := route (agents s' ! k),
        route_size := route_size (agents s' ! k)\<rparr>)" by simp
  then show ?thesis by simp
next
  case False
  with route_finding_frame [OF run] have "agents s' ! k = agents s ! k" by simp
  then show ?thesis by simp
qed

lemma route_finding_node_sequence:
  assumes run: "route_finding s = Inr s'"
  shows "node_sequence s' = node_sequence s"
proof -
  note fr = route_finding_frame [OF run]
  have "map init_intersection (agents s') = map init_intersection (agents s)"
    using fr route_finding_endpoints [OF run] by (intro nth_equalityI) simp_all
  moreover have "map end_intersection (agents s') = map end_intersection (agents s)"
    using fr route_finding_endpoints [OF run] by (intro nth_equalityI) simp_all
  ultimately show ?thesis using fr by (simp add: node_sequence_def)
qed

lemma add_route_short:
  assumes "length p < 2"
  shows "add_route eidf e2m i p a = Inr a"
proof (cases p)
  case Nil
  then show ?thesis by simp
next
  case (Cons v vs)
  with assms have "vs = []" by simp
  with Cons show ?thesis by simp
qed

section \<open>The run on the line network\<close>

lemma line_node_sequence: "node_sequence line_sim = [[0, 1, 2, 3], [0], []]"
  by (simp add: node_sequence_def line_sim_def line_routes_def new_agent_def upt_rec)

lemma line_run: "route_finding line_sim = Inr line_done"
  unfolding route_finding_def line_node_sequence line_done_def
  by (simp add: line_sim_def line_routed_def line_edge_id_def new_agent_def)

lemma line_done_node_sequence: "node_sequence line_done = [[0, 1, 2, 3], [0], []]"
  by (simp add: node_sequence_def line_done_def line_sim_def line_routes_def new_agent_def
      line_routed_def upt_rec)

lemma line_run_twice: "route_finding line_done = Inr line_done2"
  unfolding route_finding_def line_done_node_sequence line_done2_def
  by (simp add: line_done_def line_sim_def line_routed_def line_twice_def line_edge_id_def
      new_agent_def)

section \<open>Facts about the snapshot writer\<close>

lemma edge_rows_nth:
  "edge_rows dt ed m2e = Inr rows \<Longrightarrow>
     length rows = length m2e \<and>
     (\<forall>j<length m2e. fst (m2e ! j) < length ed \<and>
        er_eid (rows ! j) = snd (m2e ! j) \<and>
        er_downstream_count (rows ! j) = downstream_veh_count (ed ! fst (m2e ! j)) \<and>
        er_average_travel_time (rows ! j) = ave_time dt (ed ! fst (m2e ! j)))"
proof (induction m2e arbitrary: rows)
  case Nil
  then show ?case by simp
next
  case (Cons me rest)
  obtain mid eid where me: "me = (mid, eid)" by (cases me)
  from Cons.prems me obtain rows' where
    m: "mid < length ed" and r: "edge_rows dt ed rest = Inr rows'" and
    rows: "rows = \<lparr>er_eid = eid, er_u = vertex0 (ed ! mid), er_v = vertex1 (ed ! mid),
                   er_upstream_count = upstream_veh_count (ed ! mid),
                   er_downstream_count = downstream_veh_count (ed ! mid),
                   er_average_travel_time = ave_time dt (ed ! mid)\<rparr> # rows'"
    by (auto split: if_splits sum.splits)
  note IH = Cons.IH [OF r]
  have "fst ((me # rest) ! j) < length ed \<and>
        er_eid (rows ! j) = snd ((me # rest) ! j) \<and>
        er_downstream_count (rows ! j) = downstream_veh_count (ed ! fst ((me # rest) ! j)) \<and>
        er_average_travel_time (rows ! j) = ave_time dt (ed ! fst ((me # rest) ! j))"
    if "j < length (me # rest)" for j
  proof (cases j)
    case 0
    with me m rows show ?thesis by simp
  next
    case (Suc j')
    with that have "j' < length rest" by simp
    with IH Suc rows show ?thesis by simp
  qed
  moreover from IH rows have "length rows = length (me # rest)" by simp
  ultimately show ?case by blast
qed

lemma save_edges_rows:
  assumes "save_edges s t = Inr s'"
  obtains rows where "edge_rows (deltaTime s) (edgesData s) (mid2eid s) = Inr rows"
    "s' = s\<lparr>files := (files s)(EdgeFile t \<mapsto> EdgeCsv rows)\<rparr>"
  using assms by (auto simp: save_edges_def split: sum.splits)

lemma two_edges_rows:
  "edge_rows (1 / 2) (edgesData two_edges) (mid2eid two_edges) =
     Inr [\<lparr>er_eid = 5, er_u = 0, er_v = 1, er_upstream_count = 2, er_downstream_count = 0,
            er_average_travel_time = - 1\<rparr>,
          \<lparr>er_eid = 7, er_u = 1, er_v = 2, er_upstream_count = 6, er_downstream_count = 4,
            er_average_travel_time = 5 / 4\<rparr>]"
  by (simp add: two_edges_def line_sim_def ave_time_def)

lemma two_edges_saved: "\<exists>s'. save_edges two_edges 10 = Inr s'"
proof -
  have d: "deltaTime two_edges = 1 / 2" by (simp add: two_edges_def)
  show ?thesis unfolding save_edges_def d two_edges_rows by simp
qed

section \<open>Facts about binary32 rounding\<close>

lemma find_append_list:
  "List.find P (xs @ ys) = (case List.find P xs of None \<Rightarrow> List.find P ys | Some x \<Rightarrow> Some x)"
  by (induction xs) simp_all

lemma find_upto:
  assumes "lo \<le> e" "e \<le> hi" "P e" "\<And>e'. lo \<le> e' \<Longrightarrow> e' < e \<Longrightarrow> \<not> P e'"
  shows "List.find P [lo..hi] = Some e"
proof -
  from assms(1,2) have split: "[lo..hi] = [lo..e - 1] @ e # [e + 1..hi]" by (rule upto_split3)
  from assms(4) have "List.find P [lo..e - 1] = None" by (auto simp: find_None_iff)
  with assms(3) show ?thesis unfolding split find_append_list by simp
qed

lemma exponent32_eq:
  assumes "- 126 \<le> e" "e \<le> 127" "2 powi e \<le> a" "a < 2 powi (e + 1)"
  shows "exponent32 a = e"
proof -
  have "\<not> a < 2 powi (e' + 1)" if "e' < e" for e'
  proof -
    from that have "e' + 1 \<le> e" by simp
    then have "(2::real) powi (e' + 1) \<le> 2 powi e" by (intro power_int_increasing) simp_all
    with assms(3) show ?thesis by simp
  qed
  with assms have "List.find (\<lambda>e. a < 2 powi (e + 1)) [- 126..127] = Some e"
    by (intro find_upto) simp_all
  then show ?thesis by (simp add: exponent32_def)
qed

lemma exponent32_small:
  assumes "a < 2 powi (- 125)"
  shows "exponent32 a = - 126"
proof -
  from assms have "List.find (\<lambda>e. a < 2 powi (e + 1)) [- 126..127] = Some (- 126)"
    by (intro find_upto) simp_all
  then show ?thesis by (simp add: exponent32_def)
qed

lemma round_even_int: "round_even (of_int m) = m"
  by (simp add: round_even_def)

lemma round32_zero: "round32 0 = Fin 0"
  by (simp add: round32_def round_even_def)

lemma round32_exact:
  assumes x: "x = of_int m * 2 powi (e - 23)"
    and m: "2 ^ 23 \<le> \<bar>m\<bar>" "\<bar>m\<bar> < 2 ^ 24"
    and e: "- 126 \<le> e" "e \<le> 127"
  shows "round32 x = Fin x"
proof -
  let ?u = "(2::real) powi (e - 23)"
  have u: "0 < ?u" by simp
  have ax: "\<bar>x\<bar> = of_int \<bar>m\<bar> * ?u" by (simp add: x abs_mult)
  have p23: "(2::real) powi e = 2 ^ 23 * ?u"
    using power_int_add [of "2::real" 23 "e - 23"] by simp
  have p24: "(2::real) powi (e + 1) = 2 ^ 24 * ?u"
    using power_int_add [of "2::real" 24 "e - 23"] by (simp add: add.commute)
  from m(1) have "(2::real) ^ 23 \<le> of_int \<bar>m\<bar>" by (metis of_int_le_iff of_int_numeral of_int_power)
  with u have lo: "2 powi e \<le> \<bar>x\<bar>" unfolding ax p23 by (intro mult_right_mono) simp_all
  from m(2) have m24: "of_int \<bar>m\<bar> < (2::real) ^ 24" by (metis of_int_less_iff of_int_numeral of_int_power)
  with u have hi: "\<bar>x\<bar> < 2 powi (e + 1)" unfolding ax p24 by (intro mult_strict_right_mono) simp_all
  from e lo hi have ex: "exponent32 \<bar>x\<bar> = e" by (rule exponent32_eq)
  from u have q: "x / ?u = of_int m" by (simp add: x)
  have r: "of_int (round_even (x / ?u)) * ?u = x" unfolding q round_even_int by (simp add: x)
  from e(2) have "?u \<le> 2 powi 104" by (intro power_int_increasing) simp_all
  with m24 have "of_int \<bar>m\<bar> * ?u < 2 ^ 24 * 2 powi 104"
    by (intro mult_less_le_imp_less) simp_all
  also have "\<dots> = (2::real) ^ 128" by simp
  finally have "\<bar>x\<bar> < 2 ^ 128" unfolding ax .
  then show ?thesis unfolding round32_def ex r by simp
qed

section \<open>Facts about the simulation loop\<close>

lemma clock_0: "clock dt t0 0 = t0"
  by (simp add: clock_def)

lemma clock_Suc: "clock dt t0 (Suc j) = f32_add (clock dt t0 j) dt"
  by (simp add: clock_def)

lemma clock_shift: "clock dt (f32_add t0 dt) j = clock dt t0 (Suc j)"
  by (induction j) (simp_all add: clock_def)

lemma edge_rows_total:
  "(\<And>mid eid. (mid, eid) \<in> set m2e \<Longrightarrow> mid < length ed) \<Longrightarrow>
     \<exists>rows. edge_rows dt ed m2e = Inr rows"
proof (induction m2e)
  case Nil
  then show ?case by simp
next
  case (Cons me rest)
  obtain mid eid where me: "me = (mid, eid)" by (cases me)
  from Cons.prems [of mid eid] me have m: "mid < length ed" by simp
  have "mid' < length ed" if "(mid', eid') \<in> set rest" for mid' eid'
    using Cons.prems [of mid' eid'] that by simp
  then have "\<exists>rows. edge_rows dt ed rest = Inr rows" by (rule Cons.IH)
  then obtain rows where "edge_rows dt ed rest = Inr rows" ..
  with me m show ?case by simp
qed

lemma save_edges_total:
  assumes "\<And>mid eid. (mid, eid) \<in> set (mid2eid s) \<Longrightarrow> mid < length (edgesData s)"
  shows "\<exists>rows. save_edges s t = Inr (s\<lparr>files := (files s)(EdgeFile t \<mapsto> EdgeCsv rows)\<rparr>)"
proof -
  from assms have "\<exists>rows. edge_rows (deltaTime s) (edgesData s) (mid2eid s) = Inr rows"
    by (rule edge_rows_total)
  then obtain rows where "edge_rows (deltaTime s) (edgesData s) (mid2eid s) = Inr rows" ..
  then have "save_edges s t = Inr (s\<lparr>files := (files s)(EdgeFile t \<mapsto> EdgeCsv rows)\<rparr>)"
    by (simp add: save_edges_def)
  then show ?thesis ..
qed

lemma loop_body_continues:
  assumes k: "k \<noteq> 0"
    and sizes: "\<And>d ags eds. length (snd (cuda_get_data dev d ags eds)) = length eds"
    and mids: "\<And>mid eid. (mid, eid) \<in> set (mid2eid (host r)) \<Longrightarrow>
                 mid < length (edgesData (host r))"
    and conv: "(simulations_steps r + 1) mod k = 0 \<Longrightarrow>
                 int_of_f32 (f32_add (startTime r) dt) = Some z"
  shows "\<exists>r'. loop_body dev dt k r = Inr r' \<and>
    startTime r' = f32_add (startTime r) dt \<and>
    simulations_steps r' = simulations_steps r + 1 \<and>
    calls r' = calls r @ CudaSimulate (startTime r) #
      (if (simulations_steps r + 1) mod k = 0
       then [CudaGetData, SaveEdges z, SaveAgents z] else []) \<and>
    mid2eid (host r') = mid2eid (host r) \<and>
    length (edgesData (host r')) = length (edgesData (host r)) \<and>
    deltaTime (host r') = deltaTime (host r)"
proof (cases "(simulations_steps r + 1) mod k = 0")
  case False
  with k show ?thesis by (simp add: loop_body_def)
next
  case True
  let ?s = "retrieved dev
              (cuda_simulate dev (startTime r) (length (agents (host r))) dt (gpu r)) (host r)"
  have m: "mid2eid ?s = mid2eid (host r)" by (simp add: retrieved_def)
  have l: "length (edgesData ?s) = length (edgesData (host r))"
    by (simp add: retrieved_def sizes)
  have d: "deltaTime ?s = deltaTime (host r)" by (simp add: retrieved_def)
  from mids m l have "\<exists>rows. save_edges ?s z =
      Inr (?s\<lparr>files := (files ?s)(EdgeFile z \<mapsto> EdgeCsv rows)\<rparr>)"
    by (intro save_edges_total) simp
  then obtain rows where
    se: "save_edges ?s z = Inr (?s\<lparr>files := (files ?s)(EdgeFile z \<mapsto> EdgeCsv rows)\<rparr>)" ..
  from conv [OF True] have c: "int_of_f32 (f32_add (startTime r) dt) = Some z" .
  let ?r' = "\<lparr>startTime = f32_add (startTime r) dt,
               simulations_steps = simulations_steps r + 1,
               gpu = cuda_simulate dev (startTime r) (length (agents (host r))) dt (gpu r),
               host = save_agents (?s\<lparr>files := (files ?s)(EdgeFile z \<mapsto> EdgeCsv rows)\<rparr>) z,
               calls = calls r @ [CudaSimulate (startTime r), CudaGetData,
                                  SaveEdges z, SaveAgents z]\<rparr>"
  from k True c se have "loop_body dev dt k r = Inr ?r'" by (simp add: loop_body_def)
  moreover have "mid2eid (host ?r') = mid2eid (host r)" using m by (simp add: save_agents_def)
  moreover have "length (edgesData (host ?r')) = length (edgesData (host r))"
    using l by (simp add: save_agents_def)
  moreover have "deltaTime (host ?r') = deltaTime (host r)" using d by (simp add: save_agents_def)
  ultimately show ?thesis using True by (intro exI [of _ ?r']) simp
qed

lemma iteration_shift:
  "iteration dt k (f32_add t dt) (s + 1) j = iteration dt k t s (Suc j)"
  by (simp add: iteration_def clock_shift ac_simps)

lemma upt_Suc_shift: "[0..<Suc n] = 0 # map Suc [0..<n]"
  by (simp add: upt_conv_Cons map_Suc_upt del: upt_Suc)

lemma main_loop_run:
  assumes k: "k \<noteq> 0"
    and sizes: "\<And>d ags eds. length (snd (cuda_get_data dev d ags eds)) = length eds"
  shows "(\<And>j. j < n \<Longrightarrow> f32_less (clock dt (startTime r) j) endTime) \<Longrightarrow>
    \<not> f32_less (clock dt (startTime r) n) endTime \<Longrightarrow>
    (\<And>j. j < n \<Longrightarrow> (simulations_steps r + of_nat (j + 1)) mod k = 0 \<Longrightarrow>
        int_of_f32 (clock dt (startTime r) (j + 1)) \<noteq> None) \<Longrightarrow>
    (\<And>mid eid. (mid, eid) \<in> set (mid2eid (host r)) \<Longrightarrow>
        mid < length (edgesData (host r))) \<Longrightarrow>
    \<exists>s'. main_loop dev dt k endTime r =
      Some (calls r @
            concat (map (iteration dt k (startTime r) (simulations_steps r)) [0..<n]),
            Finished, s') \<and>
      mid2eid s' = mid2eid (host r) \<and> deltaTime s' = deltaTime (host r)"
proof (induction n arbitrary: r)
  case 0
  then have "\<not> f32_less (startTime r) endTime" by (simp add: clock_0)
  then show ?case by (subst main_loop.simps) simp
next
  case (Suc n)
  let ?t = "startTime r" and ?s = "simulations_steps r"
  let ?z = "the (int_of_f32 (f32_add ?t dt))"
  from Suc.prems(1) [of 0] have enter: "f32_less ?t endTime" by (simp add: clock_0)
  have conv0: "int_of_f32 (f32_add ?t dt) = Some ?z" if "(?s + 1) mod k = 0"
  proof -
    from Suc.prems(3) [of 0] that have "int_of_f32 (clock dt ?t (0 + 1)) \<noteq> None" by simp
    then show ?thesis by (simp add: clock_Suc clock_0)
  qed
  have "\<exists>r'. loop_body dev dt k r = Inr r' \<and>
    startTime r' = f32_add (startTime r) dt \<and>
    simulations_steps r' = simulations_steps r + 1 \<and>
    calls r' = calls r @ CudaSimulate (startTime r) #
      (if (simulations_steps r + 1) mod k = 0
       then [CudaGetData, SaveEdges ?z, SaveAgents ?z] else []) \<and>
    mid2eid (host r') = mid2eid (host r) \<and>
    length (edgesData (host r')) = length (edgesData (host r)) \<and>
    deltaTime (host r') = deltaTime (host r)"
  proof (rule loop_body_continues [OF k sizes])
    fix mid eid
    assume "(mid, eid) \<in> set (mid2eid (host r))"
    then show "mid < length (edgesData (host r))" by (rule Suc.prems(4))
  next
    assume "(?s + 1) mod k = 0"
    then show "int_of_f32 (f32_add ?t dt) = Some ?z" by (rule conv0)
  qed
  then obtain r' where body: "loop_body dev dt k r = Inr r'"
    and t': "startTime r' = f32_add ?t dt"
    and s': "simulations_steps r' = ?s + 1"
    and c': "calls r' = calls r @ CudaSimulate ?t #
      (if (?s + 1) mod k = 0 then [CudaGetData, SaveEdges ?z, SaveAgents ?z] else [])"
    and m': "mid2eid (host r') = mid2eid (host r)"
    and l': "length (edgesData (host r')) = length (edgesData (host r))"
    and d': "deltaTime (host r') = deltaTime (host r)"
    by blast
  have h1: "f32_less (clock dt (startTime r') j) endTime" if "j < n" for j
    using Suc.prems(1) [of "Suc j"] that by (simp add: t' clock_shift)
  have h2: "\<not> f32_less (clock dt (startTime r') n) endTime"
    using Suc.prems(2) by (simp add: t' clock_shift)
  have h3: "int_of_f32 (clock dt (startTime r') (j + 1)) \<noteq> None"
    if "j < n" "(simulations_steps r' + of_nat (j + 1)) mod k = 0" for j
  proof -
    from that(2) have "(?s + of_nat (Suc j + 1)) mod k = 0"
      by (simp add: s' ac_simps)
    with Suc.prems(3) [of "Suc j"] that(1)
    have "int_of_f32 (clock dt ?t (Suc j + 1)) \<noteq> None" by simp
    then show ?thesis by (simp add: t' clock_shift)
  qed
  have h4: "mid < length (edgesData (host r'))" if "(mid, eid) \<in> set (mid2eid (host r'))"
    for mid eid
    using Suc.prems(4) [of mid eid] that by (simp add: m' l')
  have "\<exists>s''. main_loop dev dt k endTime r' =
      Some (calls r' @
            concat (map (iteration dt k (startTime r') (simulations_steps r')) [0..<n]),
            Finished, s'') \<and>
      mid2eid s'' = mid2eid (host r') \<and> deltaTime s'' = deltaTime (host r')"
  proof (rule Suc.IH)
    fix j
    assume "j < n"
    then show "f32_less (clock dt (startTime r') j) endTime" by (rule h1)
  next
    show "\<not> f32_less (clock dt (startTime r') n) endTime" by (rule h2)
  next
    fix j
    assume "j < n" "(simulations_steps r' + of_nat (j + 1)) mod k = 0"
    then show "int_of_f32 (clock dt (startTime r') (j + 1)) \<noteq> None" by (rule h3)
  next
    fix mid eid
    assume "(mid, eid) \<in> set (mid2eid (host r'))"
    then show "mid < length (edgesData (host r'))" by (rule h4)
  qed
  then obtain s'' where
    run: "main_loop dev dt k endTime r' =
      Some (calls r' @
            concat (map (iteration dt k (startTime r') (simulations_steps r')) [0..<n]),
            Finished, s'')"
    and keep: "mid2eid s'' = mid2eid (host r')" "deltaTime s'' = deltaTime (host r')"
    by blast
  have first: "calls r' = calls r @ iteration dt k ?t ?s 0"
    by (simp add: c' iteration_def clock_0 clock_Suc)
  have rest: "map (iteration dt k (startTime r') (simulations_steps r')) [0..<n] =
      map (iteration dt k ?t ?s) (map Suc [0..<n])"
    by (simp add: t' s' iteration_shift)
  have "main_loop dev dt k endTime r = main_loop dev dt k endTime r'"
    using enter body by (subst main_loop.simps) simp
  also note run
  finally have "main_loop dev dt k endTime r =
      Some (calls r @ concat (map (iteration dt k ?t ?s) [0..<Suc n]), Finished, s'')"
    unfolding first rest upt_Suc_shift by simp
  with keep m' d' show ?case by auto
qed

lemma step_counter_multiple:
  fixes k :: int and j :: nat
  assumes "0 < k" "k < 2 ^ 31" "j < 2 ^ 32"
  shows "(((0::32 word) + of_nat j) mod word_of_int k = 0) = (nat k dvd j)"
proof -
  from assms have kk: "word_of_int k = (of_nat (nat k) :: 32 word)" by simp
  from assms have "k < 4294967296" by simp
  then have "nat k < 4294967296" by linarith
  then have "nat k < 2 ^ 32" by simp
  then have uk: "unat (of_nat (nat k) :: 32 word) = nat k"
    by (simp add: unat_of_nat take_bit_nat_eq_self)
  from assms have uj: "unat (of_nat j :: 32 word) = j"
    by (simp add: unat_of_nat take_bit_nat_eq_self)
  have "((of_nat j :: 32 word) mod of_nat (nat k) = 0) =
      (unat ((of_nat j :: 32 word) mod of_nat (nat k)) = 0)"
    by (simp add: unat_eq_0)
  also have "\<dots> = (j mod nat k = 0)" by (simp only: unat_mod uk uj)
  also have "\<dots> = (nat k dvd j)" by (simp add: dvd_eq_mod_eq_0)
  finally show ?thesis by (simp add: kk)
qed

lemma count_multiples:
  "0 < k \<Longrightarrow> (\<Sum>j<n. if k dvd (j + 1) then 1 else 0) = n div (k::nat)"
  by (induction n) (simp_all add: div_Suc dvd_eq_mod_eq_0)

lemma word_of_positive:
  fixes k :: int
  assumes "0 < k" "k < 2 ^ 31"
  shows "(word_of_int k :: 32 word) \<noteq> 0"
proof
  assume z: "(word_of_int k :: 32 word) = 0"
  from assms have kk: "word_of_int k = (of_nat (nat k) :: 32 word)" by simp
  from assms have "k < 4294967296" by simp
  then have "nat k < 4294967296" by linarith
  then have "nat k < 2 ^ 32" by simp
  then have "unat (of_nat (nat k) :: 32 word) = nat k"
    by (simp add: unat_of_nat take_bit_nat_eq_self)
  with z kk have "nat k = 0" by simp
  with assms show False by simp
qed

lemma count_iteration:
  "count_list (iteration dt k t s j) CudaGetData = (if (s + of_nat (j + 1)) mod k = 0 then 1 else 0)"
  by (simp add: iteration_def)

lemma int_of_f32_Some:
  assumes "int_of_f32 x = Some k"
  shows "\<exists>y. x = Fin y \<and> k = trunc y \<and> - (2 ^ 31) \<le> k \<and> k < 2 ^ 31"
  using assms by (cases x) (auto split: if_splits)

lemma num_save_steps_Some:
  assumes "num_save_steps (Fin dt) save_interval = Some k"
  shows "- (2 ^ 31) \<le> k \<and> k < 2 ^ 31 \<and> (k \<noteq> 0 \<longrightarrow> dt \<noteq> 0)"
proof -
  from assms have i: "int_of_f32 (f32_div (f32_of_int save_interval) (Fin dt)) = Some k"
    by (simp add: num_save_steps_def)
  from int_of_f32_Some [OF i] obtain y where
    y: "f32_div (f32_of_int save_interval) (Fin dt) = Fin y" "k = trunc y"
    and b: "- (2 ^ 31) \<le> k" "k < 2 ^ 31" by blast
  have "k = 0" if "dt = 0"
    using y that by (cases "f32_of_int save_interval") (simp_all split: if_splits)
  with b show ?thesis by blast
qed

lemma simulateInGPU_run:
  assumes k: "num_save_steps (Fin (deltaTime s)) save_interval = Some k" and k0: "0 < k"
    and inside: "\<And>j. j < N \<Longrightarrow> f32_less (clock (Fin (deltaTime s)) t0 j) endTime"
    and leave: "\<not> f32_less (clock (Fin (deltaTime s)) t0 N) endTime"
    and N32: "N < 2 ^ 32"
    and conv: "\<And>j. j < N \<Longrightarrow> nat k dvd j + 1 \<Longrightarrow>
                 int_of_f32 (clock (Fin (deltaTime s)) t0 (j + 1)) \<noteq> None"
    and sizes: "\<And>d ags eds. length (snd (cuda_get_data dev d ags eds)) = length eds"
    and mids: "\<And>mid eid. (mid, eid) \<in> set (mid2eid s) \<Longrightarrow> mid < length (edgesData s)"
  shows "\<exists>s'. simulateInGPU dev s t0 endTime save_interval =
      Some (InitCuda #
            concat (map (\<lambda>j. CudaSimulate (clock (Fin (deltaTime s)) t0 j) #
                          (if nat k dvd j + 1
                           then [CudaGetData,
                                 SaveEdges (the (int_of_f32 (clock (Fin (deltaTime s)) t0 (j + 1)))),
                                 SaveAgents (the (int_of_f32 (clock (Fin (deltaTime s)) t0 (j + 1))))]
                           else [])) [0..<N]) @
            [FinishCuda], Finished, s')"
proof -
  let ?dt = "Fin (deltaTime s)"
  let ?K = "word_of_int k :: 32 word"
  let ?r = "\<lparr>startTime = t0, simulations_steps = 0,
             gpu = init_cuda dev (agents s) (edgesData s), host = s, calls = [InitCuda]\<rparr>"
  let ?f = "\<lambda>j. CudaSimulate (clock ?dt t0 j) #
                          (if nat k dvd j + 1
                           then [CudaGetData,
                                 SaveEdges (the (int_of_f32 (clock ?dt t0 (j + 1)))),
                                 SaveAgents (the (int_of_f32 (clock ?dt t0 (j + 1))))]
                           else [])"
  from num_save_steps_Some [OF k] have k31: "k < 2 ^ 31" by simp
  have mult: "((0 + of_nat j) mod ?K = 0) = (nat k dvd j)" if "j < 2 ^ 32" for j
    using k0 k31 that by (rule step_counter_multiple)
  from k0 k31 have K: "?K \<noteq> 0" by (rule word_of_positive)
  have mult': "((0 + of_nat (j + 1)) mod ?K = 0) = (nat k dvd j + 1)" if "j < N" for j
  proof -
    from that N32 have "j + 1 < 2 ^ 32" by linarith
    from mult [OF this] show ?thesis .
  qed
  have "\<exists>s'. main_loop dev ?dt ?K endTime ?r =
      Some (calls ?r @
            concat (map (iteration ?dt ?K (startTime ?r) (simulations_steps ?r)) [0..<N]),
            Finished, s') \<and>
      mid2eid s' = mid2eid (host ?r) \<and> deltaTime s' = deltaTime (host ?r)"
  proof (rule main_loop_run [OF K sizes])
    fix j
    assume "j < N"
    then show "f32_less (clock ?dt (startTime ?r) j) endTime" using inside by simp
  next
    show "\<not> f32_less (clock ?dt (startTime ?r) N) endTime" using leave by simp
  next
    fix j
    assume j: "j < N" and "(simulations_steps ?r + of_nat (j + 1)) mod ?K = 0"
    then have "nat k dvd j + 1" using mult' [OF j] by simp
    with j show "int_of_f32 (clock ?dt (startTime ?r) (j + 1)) \<noteq> None"
      using conv by simp
  next
    fix mid eid
    assume "(mid, eid) \<in> set (mid2eid (host ?r))"
    then show "mid < length (edgesData (host ?r))" using mids by simp
  qed
  then obtain s' where loop: "main_loop dev ?dt ?K endTime ?r =
      Some ([InitCuda] @ concat (map (iteration ?dt ?K t0 0) [0..<N]), Finished, s')"
    by auto
  have "iteration ?dt ?K t0 0 j = ?f j" if "j < N" for j
    using mult' [OF that] by (simp add: iteration_def)
  then have "map (iteration ?dt ?K t0 0) [0..<N] = map ?f [0..<N]"
    by (intro map_cong) simp_all
  with loop have "simulateInGPU dev s t0 endTime save_interval =
      Some (InitCuda # concat (map ?f [0..<N]) @ [FinishCuda], Finished, s')"
    by (simp add: simulateInGPU_def k)
  then show ?thesis ..
qed

section \<open>Binary32 numbers and roundings\<close>

lemma round32_half: "round32 (1 / 2) = Fin (1 / 2)"
  by (rule round32_exact [of _ 8388608 "- 1"]) simp_all

lemma round32_1: "round32 1 = Fin 1"
  by (rule round32_exact [of _ 8388608 0]) simp_all

lemma round32_3_2: "round32 (3 / 2) = Fin (3 / 2)"
  by (rule round32_exact [of _ 12582912 0]) simp_all

lemma round32_2: "round32 2 = Fin 2"
  by (rule round32_exact [of _ 8388608 1]) simp_all

lemma round32_3: "round32 3 = Fin 3"
  by (rule round32_exact [of _ 12582912 1]) simp_all

lemma round32_4: "round32 4 = Fin 4"
  by (rule round32_exact [of _ 8388608 2]) simp_all

lemma round32_6: "round32 6 = Fin 6"
  by (rule round32_exact [of _ 12582912 2]) simp_all

lemma round32_8: "round32 8 = Fin 8"
  by (rule round32_exact [of _ 8388608 3]) simp_all

lemma round32_10: "round32 10 = Fin 10"
  by (rule round32_exact [of _ 10485760 3]) simp_all

lemma round32_tie: "round32 16777217 = Fin 16777216"
proof -
  have "exponent32 \<bar>16777217\<bar> = 24"
    by (rule exponent32_eq) simp_all
  then show ?thesis by (simp add: round32_def round_even_def)
qed

lemma clock_stalls: "clock (Fin 1) (Fin 16777216) j = Fin 16777216"
  by (induction j) (simp_all add: clock_0 clock_Suc round32_tie)

lemma round32_tenth: "round32 (1 / (13421773 / 134217728)) = Fin 10"
proof -
  have "exponent32 \<bar>1 / (13421773 / 134217728)\<bar> = 3"
    by (rule exponent32_eq) simp_all
  then show ?thesis by (simp add: round32_def round_even_def)
qed

lemma num_save_steps_tenth: "num_save_steps (Fin (13421773 / 134217728)) 1 = Some 10"
proof -
  have a: "f32_of_int 1 = Fin 1" by (simp add: f32_of_int_def round32_1)
  have b: "f32_div (Fin 1) (Fin (13421773 / 134217728)) = Fin 10"
    using round32_tenth by simp
  show ?thesis unfolding num_save_steps_def a b by (simp add: trunc_def)
qed

lemma clock_exact:
  "(\<And>j. j < n \<Longrightarrow> round32 (a + real (Suc j) * d) = Fin (a + real (Suc j) * d)) \<Longrightarrow>
     clock (Fin d) (Fin a) n = Fin (a + real n * d)"
proof (induction n)
  case 0
  then show ?case by (simp add: clock_0)
next
  case (Suc n)
  have "clock (Fin d) (Fin a) n = Fin (a + real n * d)"
  proof (rule Suc.IH)
    fix j
    assume "j < n"
    then have "j < Suc n" by simp
    then show "round32 (a + real (Suc j) * d) = Fin (a + real (Suc j) * d)"
      by (rule Suc.prems)
  qed
  then have "clock (Fin d) (Fin a) (Suc n) = round32 (a + real n * d + d)"
    by (simp add: clock_Suc)
  also have "a + real n * d + d = a + real (Suc n) * d" by (simp add: algebra_simps)
  also have "round32 (a + real (Suc n) * d) = Fin (a + real (Suc n) * d)"
    by (rule Suc.prems) simp
  finally show ?case .
qed

section \<open>The runs on the two merged edges\<close>

lemma less_4: "j < 4 \<Longrightarrow> j = 0 \<or> j = 1 \<or> j = 2 \<or> j = (3::nat)"
  by arith

lemma less_5: "j < 5 \<Longrightarrow> j = 0 \<or> j = 1 \<or> j = 2 \<or> j = 3 \<or> j = (4::nat)"
  by arith

lemma half_second_clock:
  assumes "j \<le> 4"
  shows "clock (Fin (1 / 2)) (Fin 0) j = Fin (real j / 2)"
proof -
  have "round32 (0 + real (Suc i) * (1 / 2)) = Fin (0 + real (Suc i) * (1 / 2))" if "i < j" for i
  proof -
    from that assms have "i < 4" by simp
    from less_4 [OF this] show ?thesis
      by (auto simp: round32_half round32_1 round32_3_2 round32_2)
  qed
  from clock_exact [of j 0 "1 / 2", OF this] show ?thesis by simp
qed

lemma two_second_clock:
  assumes "j \<le> 5"
  shows "clock (Fin 2) (Fin 0) j = Fin (real j * 2)"
proof -
  have "round32 (0 + real (Suc i) * 2) = Fin (0 + real (Suc i) * 2)" if "i < j" for i
  proof -
    from that assms have "i < 5" by simp
    from less_5 [OF this] show ?thesis
      by (auto simp: round32_2 round32_4 round32_6 round32_8 round32_10)
  qed
  from clock_exact [of j 0 2, OF this] show ?thesis by simp
qed

lemma two_edges_interval: "num_save_steps (Fin (deltaTime two_edges)) 1 = Some 2"
proof -
  have d: "deltaTime two_edges = 1 / 2" by (simp add: two_edges_def)
  have a: "f32_of_int 1 = Fin 1" by (simp add: f32_of_int_def round32_1)
  have b: "f32_div (Fin 1) (Fin (1 / 2)) = Fin 2" by (simp add: round32_2)
  show ?thesis unfolding num_save_steps_def d a b by (simp add: trunc_def)
qed

lemma slow_edges_interval: "num_save_steps (Fin (deltaTime slow_edges)) 3 = Some 1"
proof -
  have d: "deltaTime slow_edges = 2" by (simp add: slow_edges_def)
  have a: "f32_of_int 3 = Fin 3" by (simp add: f32_of_int_def round32_3)
  have b: "f32_div (Fin 3) (Fin 2) = Fin (3 / 2)" by (simp add: round32_3_2)
  show ?thesis unfolding num_save_steps_def d a b by (simp add: trunc_def)
qed

lemma idle_sizes: "length (snd (cuda_get_data idle_device d ags eds)) = length eds"
  by (simp add: idle_device_def)

lemma two_edges_mids:
  "(mid, eid) \<in> set (mid2eid two_edges) \<Longrightarrow> mid < length (edgesData two_edges)"
  by (auto simp: two_edges_def)

lemma slow_edges_mids:
  "(mid, eid) \<in> set (mid2eid slow_edges) \<Longrightarrow> mid < length (edgesData slow_edges)"
  by (auto simp: slow_edges_def two_edges_def)

section \<open>Route assignment: the claims\<close>

text \<open>
  C1, as the code has it. When \<open>route_finding_\<close> completes, which needs every path to
  fit into its agent's route buffer behind \<open>route_size\<close> and every lookup to succeed,
  take an agent whose result of the batch query is not empty. The merged edges that the
  run stored into its route buffer, each mapped back to its graph edge through
  \<open>mid2eid\<close> and then to the ordered vertex pair of that edge, are exactly the
  consecutive vertex pairs of the path. The two mappings are the ones the claim speaks
  of: \<open>mid2eid\<close> inverts \<open>eid2mid\<close>, and the edge list of the network holds the pair
  an edge id was looked up with.
\<close>

theorem route_round_trip:
  assumes run: "route_finding s = Inr s'"
    and i: "i < length (node_sequence s)"
    and nonempty: "node_sequence s ! i \<noteq> []"
    and inv: "\<forall>eid mid. eid2mid s eid = Some mid \<longrightarrow> map_of (mid2eid s) mid = Some eid"
    and net: "\<forall>u v eid. edge_id s u v = Some eid \<longrightarrow>
                eid < length (edge_vertices s) \<and> edge_vertices s ! eid = (u, v)"
  shows "map (resolve s) (written (agents s ! i) (agents s' ! i)) =
         map Some (zip (node_sequence s ! i) (tl (node_sequence s ! i)))"
proof -
  let ?p = "node_sequence s ! i" and ?a = "agents s ! i" and ?a' = "agents s' ! i"
  from route_finding_agent [OF run i]
  have ar: "add_route (edge_id s) (eid2mid s) i ?p ?a = Inr ?a'" by simp
  note sz = add_route_size [OF ar]
  show ?thesis
  proof (cases "2 \<le> length ?p")
    case False
    with nonempty have "tl ?p = []" by (cases ?p) (simp_all add: not_le Suc_le_eq)
    moreover from False nonempty sz have "route_size ?a' - route_size ?a = 0"
      by (cases ?p) (simp_all add: not_le Suc_le_eq)
    ultimately show ?thesis by (simp add: written_def)
  next
    case True
    from add_route_bound [OF ar True] sz have bound: "route_size ?a' \<le> length (route ?a')"
      by simp
    with sz have len: "length (written ?a ?a') = length ?p - 1"
      by (simp add: written_def)
    have "resolve s (written ?a ?a' ! j) = Some (zip ?p (tl ?p) ! j)" if j: "j < length ?p - 1" for j
    proof -
      from j have j1: "j + 1 < length ?p" by simp
      from add_route_written [OF ar j1] obtain eid where
        e: "edge_id s (?p ! j) (?p ! (j + 1)) = Some eid" and
        m: "eid2mid s eid = Some (route ?a' ! (route_size ?a + j))" by blast
      from j sz bound have "written ?a ?a' ! j = route ?a' ! (route_size ?a + j)"
        by (simp add: written_def)
      moreover from inv m have "map_of (mid2eid s) (route ?a' ! (route_size ?a + j)) = Some eid"
        by blast
      moreover from net e have "eid < length (edge_vertices s) \<and>
          edge_vertices s ! eid = (?p ! j, ?p ! (j + 1))" by blast
      moreover from j have "zip ?p (tl ?p) ! j = (?p ! j, ?p ! (j + 1))"
        by (simp add: nth_tl)
      ultimately show ?thesis by (simp add: resolve_def)
    qed
    with len show ?thesis by (intro nth_equalityI) simp_all
  qed
qed

theorem route_round_trip_witness:
  "route_finding line_sim = Inr line_done \<and> 0 < length (node_sequence line_sim) \<and>
   node_sequence line_sim ! 0 \<noteq> [] \<and>
   map (resolve line_sim) (written (agents line_sim ! 0) (agents line_done ! 0)) =
     [Some (0, 1), Some (1, 2), Some (2, 3)]"
proof -
  have h2: "0 < length (node_sequence line_sim)" by (simp add: line_node_sequence)
  have h3: "node_sequence line_sim ! 0 \<noteq> []" by (simp add: line_node_sequence)
  have h4: "\<forall>eid mid. eid2mid line_sim eid = Some mid \<longrightarrow>
      map_of (mid2eid line_sim) mid = Some eid"
    by (auto simp: line_sim_def split: if_splits)
  have h5: "\<forall>u v eid. edge_id line_sim u v = Some eid \<longrightarrow>
      eid < length (edge_vertices line_sim) \<and> edge_vertices line_sim ! eid = (u, v)"
    by (auto simp: line_sim_def line_edge_id_def nth_Cons split: if_splits nat.splits)
  have "map (resolve line_sim) (written (agents line_sim ! 0) (agents line_done ! 0)) =
     map Some (zip (node_sequence line_sim ! 0) (tl (node_sequence line_sim ! 0)))"
    by (rule route_round_trip [OF line_run h2 h3 h4 h5])
  then have "map (resolve line_sim) (written (agents line_sim ! 0) (agents line_done ! 0)) =
     [Some (0, 1), Some (1, 2), Some (2, 3)]"
    by (simp add: line_node_sequence)
  with line_run h2 h3 show ?thesis by blast
qed

text \<open>
  C1, as it is stated, fails for an agent whose path has more edges than its route buffer
  has room. On the line network with a buffer of capacity 2 the path from 0 to 3 has
  three consecutive pairs; the first two stores fill the buffer with 10 and 11, which map
  back to two pairs only, and the third store is the one outside the array.
\<close>

theorem round_trip_lost_on_overflow:
  "node_sequence short_sim ! 0 = [0, 1, 2, 3] \<and>
   zip (node_sequence short_sim ! 0) (tl (node_sequence short_sim ! 0)) = [(0, 1), (1, 2), (2, 3)] \<and>
   length (route (agents short_sim ! 0)) = 2 \<and>
   add_route (edge_id short_sim) (eid2mid short_sim) 0 [0, 1, 2] (agents short_sim ! 0) =
     Inr ((agents short_sim ! 0)\<lparr>route := [10, 11], route_size := 2\<rparr>) \<and>
   map (resolve short_sim) [10, 11] = [Some (0, 1), Some (1, 2)] \<and>
   add_route (edge_id short_sim) (eid2mid short_sim) 0 [0, 1, 2, 3] (agents short_sim ! 0) =
     Inl (OutOfBoundsWrite 0 2 12) \<and>
   route_finding short_sim = Inl (OutOfBoundsWrite 0 2 12)"
  by (simp add: route_finding_def node_sequence_def short_sim_def line_sim_def line_routes_def
      line_edge_id_def new_agent_def upt_rec resolve_def)

text \<open>
  C8. When \<open>route_finding_\<close> completes, an agent whose result of the batch query is
  the empty sequence, and whose route buffer was empty before, still has
  \<open>route_size = 0\<close>; the agent is unchanged, so that no route entry was written;
  and among the warnings printed by the run, the one that names this agent as having no
  route occurs exactly once.
\<close>

theorem empty_route_warned_once:
  assumes run: "route_finding s = Inr s'"
    and i: "i < length (node_sequence s)"
    and empty: "node_sequence s ! i = []"
    and fresh: "route_size (agents s ! i) = 0"
  shows "route_size (agents s' ! i) = 0 \<and> agents s' ! i = agents s ! i \<and>
    (\<exists>new. cerr s' = cerr s @ new \<and> count_list new (NoRoute i) = 1)"
proof -
  from route_finding_agent [OF run i] empty have same: "agents s' ! i = agents s ! i"
    by simp
  let ?new = "concat (map (\<lambda>j. route_warnings j (node_sequence s ! j))
                 [0..<length (node_sequence s)])"
  have "count_list ?new (NoRoute i) =
      (\<Sum>j<length (node_sequence s). if j = i then 1 else 0)"
    unfolding count_concat_upt count_route_warnings using empty
    by (intro sum.cong) auto
  also have "\<dots> = 1" using i by simp
  finally have "count_list ?new (NoRoute i) = 1" .
  with route_finding_cerr [OF run] same fresh show ?thesis by simp
qed

theorem empty_route_warned_once_witness:
  "route_finding line_sim = Inr line_done \<and> 2 < length (node_sequence line_sim) \<and>
   node_sequence line_sim ! 2 = [] \<and> route_size (agents line_sim ! 2) = 0 \<and>
   route_size (agents line_done ! 2) = 0 \<and> agents line_done ! 2 = agents line_sim ! 2 \<and>
   (\<exists>new. cerr line_done = cerr line_sim @ new \<and> count_list new (NoRoute 2) = 1)"
proof -
  have h2: "2 < length (node_sequence line_sim)" by (simp add: line_node_sequence)
  have h3: "node_sequence line_sim ! 2 = []" by (simp add: line_node_sequence)
  have h4: "route_size (agents line_sim ! 2) = 0" by (simp add: line_sim_def new_agent_def)
  from empty_route_warned_once [OF line_run h2 h3 h4] line_run h2 h3 h4
  show ?thesis by blast
qed

text \<open>
  C9. When \<open>route_finding_\<close> completes, an agent whose result of the batch query is
  a single vertex, and whose route buffer was empty before, still has
  \<open>route_size = 0\<close> and is unchanged; the run prints no "no route" warning for it;
  and its inner loop returns the agent as it is whatever the two lookup tables are, even
  tables in which every lookup fails: no edge id and no merged-edge id is resolved.
\<close>

theorem single_vertex_route:
  assumes run: "route_finding s = Inr s'"
    and i: "i < length (node_sequence s)"
    and single: "node_sequence s ! i = [v]"
    and fresh: "route_size (agents s ! i) = 0"
  shows "route_size (agents s' ! i) = 0 \<and> agents s' ! i = agents s ! i \<and>
    (\<exists>new. cerr s' = cerr s @ new \<and> NoRoute i \<notin> set new) \<and>
    add_route eidf' e2m' i [v] (agents s ! i) = Inr (agents s ! i)"
proof -
  from route_finding_agent [OF run i] single have same: "agents s' ! i = agents s ! i"
    by simp
  let ?new = "concat (map (\<lambda>j. route_warnings j (node_sequence s ! j))
                 [0..<length (node_sequence s)])"
  have "count_list ?new (NoRoute i) = (\<Sum>j<length (node_sequence s). 0)"
    unfolding count_concat_upt count_route_warnings using single
    by (intro sum.cong) auto
  then have "NoRoute i \<notin> set ?new" by (simp add: count_list_0_iff)
  with route_finding_cerr [OF run] same fresh show ?thesis by simp
qed

theorem single_vertex_route_witness:
  "route_finding line_sim = Inr line_done \<and> 1 < length (node_sequence line_sim) \<and>
   node_sequence line_sim ! 1 = [0] \<and> route_size (agents line_sim ! 1) = 0 \<and>
   route_size (agents line_done ! 1) = 0 \<and> agents line_done ! 1 = agents line_sim ! 1 \<and>
   (\<exists>new. cerr line_done = cerr line_sim @ new \<and> NoRoute 1 \<notin> set new) \<and>
   add_route (\<lambda>u v. None) Map.empty 1 [0] (agents line_sim ! 1) = Inr (agents line_sim ! 1)"
proof -
  have h2: "1 < length (node_sequence line_sim)" by (simp add: line_node_sequence)
  have h3: "node_sequence line_sim ! 1 = [0]" by (simp add: line_node_sequence)
  have h4: "route_size (agents line_sim ! 1) = 0" by (simp add: line_sim_def new_agent_def)
  from single_vertex_route [OF line_run h2 h3 h4] line_run h2 h3 h4
  show ?thesis by blast
qed

text \<open>
  C4, as the code has it. \<open>route_finding_\<close> stores behind the current
  \<open>route_size\<close> and never resets it. When a second run on the outcome of a first run
  completes, it has stored the merged edges of each path once more behind the first copy:
  \<open>route_size\<close> has grown again by the number of edges of the path, the entries of the
  second run are those of the first, and the entries of the first run are still in place.
  An agent is the same after two runs as after one exactly when its path has fewer than
  two vertices.
\<close>

theorem second_run_appends:
  assumes run1: "route_finding s = Inr s1"
    and run2: "route_finding s1 = Inr s2"
    and i: "i < length (node_sequence s)"
  shows "route_size (agents s2 ! i) =
           route_size (agents s1 ! i) + (length (node_sequence s ! i) - 1) \<and>
    written (agents s1 ! i) (agents s2 ! i) = written (agents s ! i) (agents s1 ! i) \<and>
    take (route_size (agents s1 ! i)) (route (agents s2 ! i)) =
      take (route_size (agents s1 ! i)) (route (agents s1 ! i)) \<and>
    (agents s2 ! i = agents s1 ! i) = (length (node_sequence s ! i) < 2)"
proof -
  let ?p = "node_sequence s ! i"
  let ?a0 = "agents s ! i" and ?a1 = "agents s1 ! i" and ?a2 = "agents s2 ! i"
  note fr = route_finding_frame [OF run1]
  note ns = route_finding_node_sequence [OF run1]
  from route_finding_agent [OF run1 i]
  have ar1: "add_route (edge_id s) (eid2mid s) i ?p ?a0 = Inr ?a1" by simp
  from i ns have "i < length (node_sequence s1)" by simp
  from route_finding_agent [OF run2 this] ns fr
  have ar2: "add_route (edge_id s) (eid2mid s) i ?p ?a1 = Inr ?a2" by simp
  note sz1 = add_route_size [OF ar1] and sz2 = add_route_size [OF ar2]
  have size: "route_size ?a2 = route_size ?a1 + (length ?p - 1)" using sz2 by simp
  have keep: "take (route_size ?a1) (route ?a2) = take (route_size ?a1) (route ?a1)"
    using sz2 add_route_outside [OF ar2] by (intro nth_equalityI) simp_all
  have same: "(?a2 = ?a1) = (length ?p < 2)"
  proof (cases "length ?p < 2")
    case True
    from add_route_short [OF True] ar2 show ?thesis using True by simp
  next
    case False
    with size have "route_size ?a2 \<noteq> route_size ?a1" by simp
    then have "?a2 \<noteq> ?a1" by auto
    with False show ?thesis by simp
  qed
  have again: "written ?a1 ?a2 = written ?a0 ?a1"
  proof (cases "2 \<le> length ?p")
    case False
    with sz1 sz2 show ?thesis by (simp add: written_def not_le)
  next
    case True
    from add_route_bound [OF ar1 True] sz1 have b1: "route_size ?a1 \<le> length (route ?a1)"
      by simp
    from add_route_bound [OF ar2 True] sz2 have b2: "route_size ?a2 \<le> length (route ?a2)"
      by simp
    from b1 sz1 have l1: "length (written ?a0 ?a1) = length ?p - 1"
      by (simp add: written_def)
    from b2 sz2 have l2: "length (written ?a1 ?a2) = length ?p - 1"
      by (simp add: written_def)
    have "written ?a1 ?a2 ! j = written ?a0 ?a1 ! j" if j: "j < length ?p - 1" for j
    proof -
      from j have j1: "j + 1 < length ?p" by simp
      from add_route_written [OF ar1 j1] obtain eid where
        e: "edge_id s (?p ! j) (?p ! (j + 1)) = Some eid" and
        m: "eid2mid s eid = Some (route ?a1 ! (route_size ?a0 + j))" by blast
      from add_route_written [OF ar2 j1] obtain eid' where
        e': "edge_id s (?p ! j) (?p ! (j + 1)) = Some eid'" and
        m': "eid2mid s eid' = Some (route ?a2 ! (route_size ?a1 + j))" by blast
      from e e' m m' have "route ?a2 ! (route_size ?a1 + j) = route ?a1 ! (route_size ?a0 + j)"
        by simp
      moreover from j sz1 b1 have "written ?a0 ?a1 ! j = route ?a1 ! (route_size ?a0 + j)"
        by (simp add: written_def)
      moreover from j sz2 b2 have "written ?a1 ?a2 ! j = route ?a2 ! (route_size ?a1 + j)"
        by (simp add: written_def)
      ultimately show ?thesis by simp
    qed
    with l1 l2 show ?thesis by (intro nth_equalityI) simp_all
  qed
  from size again keep same show ?thesis by blast
qed

theorem second_run_appends_witness:
  "route_finding line_sim = Inr line_done \<and> route_finding line_done = Inr line_done2 \<and>
   0 < length (node_sequence line_sim) \<and>
   route_size (agents line_done2 ! 0) = route_size (agents line_done ! 0) + 3 \<and>
   written (agents line_done ! 0) (agents line_done2 ! 0) =
     written (agents line_sim ! 0) (agents line_done ! 0) \<and>
   take (route_size (agents line_done ! 0)) (route (agents line_done2 ! 0)) =
     take (route_size (agents line_done ! 0)) (route (agents line_done ! 0)) \<and>
   agents line_done2 ! 0 \<noteq> agents line_done ! 0"
proof -
  have h: "0 < length (node_sequence line_sim)" by (simp add: line_node_sequence)
  from second_run_appends [OF line_run line_run_twice h] line_run line_run_twice h
  show ?thesis by (simp add: line_node_sequence)
qed

text \<open>
  C4, as it is stated, fails on the line network: after one run the agent from 0 to 3 has
  three route entries, after two runs it has six.
\<close>

theorem rerun_changes_buffers:
  "route_finding line_sim = Inr line_done \<and> route_finding line_done = Inr line_done2 \<and>
   route_size (agents line_done ! 0) = 3 \<and> route_size (agents line_done2 ! 0) = 6 \<and>
   route (agents line_done ! 0) = [10, 11, 12, 0, 0, 0, 0, 0] \<and>
   route (agents line_done2 ! 0) = [10, 11, 12, 10, 11, 12, 0, 0]"
  by (simp add: line_run line_run_twice)
     (simp add: line_done2_def line_done_def line_routed_def line_twice_def)

text \<open>
  C2. On the line network with a route buffer of capacity 2, the agent from 0 to 3 has a
  path of three edges. \<open>route_finding_\<close> has no check of the capacity: it stores the
  first two merged edges and then executes the store of the third, 12, at index 2, which
  is outside the array. No warning precedes it, the path being shorter than 100
  vertices.
\<close>

theorem route_overflow_unchecked:
  "node_sequence short_sim = [[0, 1, 2, 3]] \<and>
   length (route (agents short_sim ! 0)) = 2 \<and>
   route_finding short_sim = Inl (OutOfBoundsWrite 0 2 12)"
  by (simp add: route_finding_def node_sequence_def short_sim_def line_sim_def line_routes_def
      line_edge_id_def new_agent_def upt_rec)

section \<open>Snapshot writer: the claims\<close>

text \<open>
  C5. In every row that \<open>save_edges\<close> writes, the average travel time is exactly
  \<open>-1\<close> when the downstream vehicle count of the merged edge is 0, and it is the
  cumulative travel steps divided by the count, times \<open>deltaTime_\<close>, when the count
  is positive.
\<close>

theorem edge_average_travel_time:
  assumes "save_edges s t = Inr s'"
  shows "\<exists>rows. files s' (EdgeFile t) = Some (EdgeCsv rows) \<and>
    length rows = length (mid2eid s) \<and>
    (\<forall>j<length rows.
       (downstream_veh_count (edgesData s ! fst (mid2eid s ! j)) = 0 \<longrightarrow>
          er_average_travel_time (rows ! j) = - 1) \<and>
       (0 < downstream_veh_count (edgesData s ! fst (mid2eid s ! j)) \<longrightarrow>
          er_average_travel_time (rows ! j) =
            (period_cum_travel_steps (edgesData s ! fst (mid2eid s ! j)) /
               real (downstream_veh_count (edgesData s ! fst (mid2eid s ! j)))) * deltaTime s))"
proof -
  from assms obtain rows where
    r: "edge_rows (deltaTime s) (edgesData s) (mid2eid s) = Inr rows" and
    s': "s' = s\<lparr>files := (files s)(EdgeFile t \<mapsto> EdgeCsv rows)\<rparr>"
    by (rule save_edges_rows)
  from s' have "files s' (EdgeFile t) = Some (EdgeCsv rows)" by simp
  moreover from edge_rows_nth [OF r] have "length rows = length (mid2eid s)" by simp
  moreover have "(downstream_veh_count (edgesData s ! fst (mid2eid s ! j)) = 0 \<longrightarrow>
          er_average_travel_time (rows ! j) = - 1) \<and>
       (0 < downstream_veh_count (edgesData s ! fst (mid2eid s ! j)) \<longrightarrow>
          er_average_travel_time (rows ! j) =
            (period_cum_travel_steps (edgesData s ! fst (mid2eid s ! j)) /
               real (downstream_veh_count (edgesData s ! fst (mid2eid s ! j)))) * deltaTime s)"
    if "j < length rows" for j
  proof -
    from that edge_rows_nth [OF r] have
      "er_average_travel_time (rows ! j) =
         ave_time (deltaTime s) (edgesData s ! fst (mid2eid s ! j))" by simp
    then show ?thesis by (simp add: ave_time_def)
  qed
  ultimately show ?thesis by blast
qed

theorem edge_average_travel_time_witness:
  "\<exists>s' rows. save_edges two_edges 10 = Inr s' \<and>
     files s' (EdgeFile 10) = Some (EdgeCsv rows) \<and> length rows = 2 \<and>
     er_average_travel_time (rows ! 0) = - 1 \<and>
     er_average_travel_time (rows ! 1) = (10 / 4) * (1 / 2)"
proof -
  from two_edges_saved obtain s' where s': "save_edges two_edges 10 = Inr s'" ..
  from edge_average_travel_time [OF s'] obtain rows where
    f: "files s' (EdgeFile 10) = Some (EdgeCsv rows)" and
    l: "length rows = length (mid2eid two_edges)" and
    a: "\<forall>j<length rows.
       (downstream_veh_count (edgesData two_edges ! fst (mid2eid two_edges ! j)) = 0 \<longrightarrow>
          er_average_travel_time (rows ! j) = - 1) \<and>
       (0 < downstream_veh_count (edgesData two_edges ! fst (mid2eid two_edges ! j)) \<longrightarrow>
          er_average_travel_time (rows ! j) =
            (period_cum_travel_steps (edgesData two_edges ! fst (mid2eid two_edges ! j)) /
               real (downstream_veh_count (edgesData two_edges ! fst (mid2eid two_edges ! j)))) *
            deltaTime two_edges)"
    by blast
  from l have l2: "length rows = 2" by (simp add: two_edges_def)
  from a l2 have "er_average_travel_time (rows ! 0) = - 1"
    by (simp add: two_edges_def)
  moreover from a [rule_format, of 1] l2
  have "er_average_travel_time (rows ! 1) = (10 / 4) * (1 / 2)"
    by (simp add: two_edges_def)
  ultimately show ?thesis using s' f l2 by blast
qed

text \<open>
  C6. \<open>save_agents\<close> divides \<open>cum_v\<close> by \<open>num_steps\<close> without looking at the
  divisor, unlike \<open>save_edges\<close>. For the agent of the line network that has no route,
  and so has made no step, the average speed written is the quotient of zero by zero: not
  a number.
\<close>

theorem average_speed_not_guarded:
  "num_steps (agents line_sim ! 2) = 0 \<and> cum_v (agents line_sim ! 2) = 0 \<and>
   (\<exists>rows. files (save_agents line_sim 0) (AgentFile 0) = Some (AgentCsv rows) \<and>
      ar_aid (rows ! 2) = 2 \<and> ar_ave_speed (rows ! 2) = NaN)"
  by (simp add: save_agents_def agent_rows_def agent_record_def fdiv_def line_sim_def
      new_agent_def upt_rec)

text \<open>
  C10. A snapshot, \<open>save_edges\<close> followed by \<open>save_agents\<close>, changes nothing but
  the files: the agents, the records of the merged edges and the mapping \<open>mid2eid\<close>
  are the same after it as before, and so is every other part of the simulator.
\<close>

theorem snapshot_frame:
  assumes "snapshot s t = Inr s'"
  shows "agents s' = agents s \<and> edgesData s' = edgesData s \<and> mid2eid s' = mid2eid s \<and>
    s' = s\<lparr>files := files s'\<rparr>"
proof -
  from assms obtain s1 where e: "save_edges s t = Inr s1" and a: "s' = save_agents s1 t"
    by (auto simp: snapshot_def split: sum.splits)
  from e obtain rows where s1: "s1 = s\<lparr>files := (files s)(EdgeFile t \<mapsto> EdgeCsv rows)\<rparr>"
    by (rule save_edges_rows)
  from a s1 show ?thesis by (simp add: save_agents_def)
qed

theorem snapshot_frame_witness:
  "\<exists>s'. snapshot two_edges 10 = Inr s' \<and>
     agents s' = agents two_edges \<and> edgesData s' = edgesData two_edges \<and>
     mid2eid s' = mid2eid two_edges \<and> s' = two_edges\<lparr>files := files s'\<rparr>"
proof -
  from two_edges_saved obtain s1 where "save_edges two_edges 10 = Inr s1" ..
  then have s': "snapshot two_edges 10 = Inr (save_agents s1 10)"
    by (simp add: snapshot_def)
  from snapshot_frame [OF s'] s' show ?thesis by blast
qed

section \<open>Simulation driver: the claims\<close>

text \<open>
  C3, as the code has it. Let \<open>k\<close>, the quotient of \<open>save_interval\<close> by
  \<open>deltaTime_\<close> in binary32 cut to an \<open>int\<close>, be at least 1. Let the loop leave
  after \<open>N\<close> steps, fewer than \<open>2^32\<close>: the clock, which is the start time with
  \<open>deltaTime_\<close> added \<open>j\<close> times in binary32, is below the end time for every
  \<open>j < N\<close> and not for \<open>j = N\<close>. Let the clock have a value as an \<open>int\<close> at
  every checkpoint, let the retrieval from the device leave the length of the array of
  edge records as it is, and let every merged-edge id of \<open>mid2eid\<close> be an index of
  that array, so that no snapshot throws. Then \<open>simulateInGPU\<close> returns, and after the
  device step number \<open>j + 1\<close> it retrieves the data and writes the two snapshot files
  if and only if \<open>k\<close> divides \<open>j + 1\<close>. The number of checkpoints is \<open>N div k\<close>. It
  is the integer part of duration by interval where the interval is exactly \<open>k\<close> time
  steps and the duration exactly \<open>N\<close> time steps.
\<close>

theorem checkpoints_at_multiples:
  assumes k: "num_save_steps (Fin (deltaTime s)) save_interval = Some k"
    and k0: "0 < k"
    and inside: "\<forall>j<N. f32_less (clock (Fin (deltaTime s)) t0 j) endTime"
    and leave: "\<not> f32_less (clock (Fin (deltaTime s)) t0 N) endTime"
    and N32: "N < 2 ^ 32"
    and conv: "\<forall>j<N. nat k dvd j + 1 \<longrightarrow>
                 int_of_f32 (clock (Fin (deltaTime s)) t0 (j + 1)) \<noteq> None"
    and sizes: "\<forall>d ags eds. length (snd (cuda_get_data dev d ags eds)) = length eds"
    and mids: "\<forall>(mid, eid) \<in> set (mid2eid s). mid < length (edgesData s)"
  shows "(\<exists>s'. simulateInGPU dev s t0 endTime save_interval =
      Some (InitCuda #
            concat (map (\<lambda>j. CudaSimulate (clock (Fin (deltaTime s)) t0 j) #
                          (if nat k dvd j + 1
                           then [CudaGetData,
                                 SaveEdges (the (int_of_f32 (clock (Fin (deltaTime s)) t0 (j + 1)))),
                                 SaveAgents (the (int_of_f32 (clock (Fin (deltaTime s)) t0 (j + 1))))]
                           else [])) [0..<N]) @
            [FinishCuda], Finished, s')) \<and>
    (\<exists>tr s'. simulateInGPU dev s t0 endTime save_interval = Some (tr, Finished, s') \<and>
          count_list tr CudaGetData = N div nat k) \<and>
    (\<forall>a b. t0 = Fin a \<longrightarrow> endTime = Fin b \<longrightarrow>
       real_of_int save_interval = real_of_int k * deltaTime s \<longrightarrow>
       b - a = real N * deltaTime s \<longrightarrow>
       \<lfloor>(b - a) / real_of_int save_interval\<rfloor> = int (N div nat k))"
proof -
  let ?f = "\<lambda>j. CudaSimulate (clock (Fin (deltaTime s)) t0 j) #
                          (if nat k dvd j + 1
                           then [CudaGetData,
                                 SaveEdges (the (int_of_f32 (clock (Fin (deltaTime s)) t0 (j + 1)))),
                                 SaveAgents (the (int_of_f32 (clock (Fin (deltaTime s)) t0 (j + 1))))]
                           else [])"
  have "\<exists>s'. simulateInGPU dev s t0 endTime save_interval =
      Some (InitCuda # concat (map ?f [0..<N]) @ [FinishCuda], Finished, s')"
  proof (rule simulateInGPU_run [OF k k0 _ leave N32])
    fix j
    assume "j < N"
    with inside show "f32_less (clock (Fin (deltaTime s)) t0 j) endTime" by blast
  next
    fix j
    assume "j < N" "nat k dvd j + 1"
    with conv show "int_of_f32 (clock (Fin (deltaTime s)) t0 (j + 1)) \<noteq> None" by blast
  next
    fix d ags eds
    from sizes show "length (snd (cuda_get_data dev d ags eds)) = length eds" by blast
  next
    fix mid eid
    assume "(mid, eid) \<in> set (mid2eid s)"
    with mids show "mid < length (edgesData s)" by blast
  qed
  then obtain s' where run: "simulateInGPU dev s t0 endTime save_interval =
      Some (InitCuda # concat (map ?f [0..<N]) @ [FinishCuda], Finished, s')" ..
  have "count_list (concat (map ?f [0..<N])) CudaGetData =
      (\<Sum>j<N. if nat k dvd j + 1 then 1 else 0)"
    unfolding count_concat_upt by (intro sum.cong) simp_all
  also from k0 have "\<dots> = N div nat k" by (intro count_multiples) simp
  finally have cnt: "count_list (InitCuda # concat (map ?f [0..<N]) @ [FinishCuda]) CudaGetData =
      N div nat k" by simp
  have fl: "\<lfloor>(b - a) / real_of_int save_interval\<rfloor> = int (N div nat k)"
    if I: "real_of_int save_interval = real_of_int k * deltaTime s"
    and T: "b - a = real N * deltaTime s" for a b :: real
  proof -
    from num_save_steps_Some [OF k] k0 have dt: "deltaTime s \<noteq> 0" by simp
    from k0 have rk: "real_of_int k = real (nat k)" by simp
    have "(b - a) / real_of_int save_interval =
        (real N * deltaTime s) / (real (nat k) * deltaTime s)" by (simp only: I T rk)
    also from dt have "\<dots> = real N / real (nat k)" by simp
    finally show ?thesis by (simp only: floor_divide_of_nat_eq of_int_of_nat_eq)
  qed
  from run cnt fl show ?thesis by blast
qed

theorem checkpoints_at_multiples_witness:
  "num_save_steps (Fin (deltaTime two_edges)) 1 = Some 2 \<and>
   \<not> f32_less (clock (Fin (deltaTime two_edges)) (Fin 0) 4) (Fin 2) \<and>
   (\<exists>tr s'. simulateInGPU idle_device two_edges (Fin 0) (Fin 2) 1 = Some (tr, Finished, s') \<and>
         count_list tr CudaGetData = 2) \<and>
   \<lfloor>(2 - 0) / real_of_int 1\<rfloor> = (2::int)"
proof -
  have d: "deltaTime two_edges = 1 / 2" by (simp add: two_edges_def)
  have h0: "(0::int) < 2" by simp
  have h1: "\<forall>j<4. f32_less (clock (Fin (deltaTime two_edges)) (Fin 0) j) (Fin 2)"
    unfolding d by (simp add: half_second_clock)
  have h2: "\<not> f32_less (clock (Fin (deltaTime two_edges)) (Fin 0) 4) (Fin 2)"
    unfolding d by (simp add: half_second_clock)
  have h3: "(4::nat) < 2 ^ 32" by simp
  have h4: "\<forall>j<4. nat 2 dvd j + 1 \<longrightarrow>
      int_of_f32 (clock (Fin (deltaTime two_edges)) (Fin 0) (j + 1)) \<noteq> None"
  proof (intro allI impI)
    fix j :: nat
    assume "j < 4"
    from less_4 [OF this]
    show "int_of_f32 (clock (Fin (deltaTime two_edges)) (Fin 0) (j + 1)) \<noteq> None"
      unfolding d by (auto simp: half_second_clock trunc_def)
  qed
  have h5: "\<forall>d ags eds. length (snd (cuda_get_data idle_device d ags eds)) = length eds"
    by (simp add: idle_sizes)
  have h6: "\<forall>(mid, eid) \<in> set (mid2eid two_edges). mid < length (edgesData two_edges)"
    using two_edges_mids by blast
  have i: "real_of_int 1 = real_of_int 2 * deltaTime two_edges" by (simp add: d)
  have t: "(2::real) - 0 = real 4 * deltaTime two_edges" by (simp add: d)
  from checkpoints_at_multiples [OF two_edges_interval h0 h1 h2 h3 h4 h5 h6]
  have "(\<exists>tr s'. simulateInGPU idle_device two_edges (Fin 0) (Fin 2) 1 = Some (tr, Finished, s') \<and>
          count_list tr CudaGetData = 4 div nat 2)"
    and "\<forall>a b. Fin 0 = Fin a \<longrightarrow> Fin 2 = Fin b \<longrightarrow>
       real_of_int 1 = real_of_int 2 * deltaTime two_edges \<longrightarrow>
       b - a = real 4 * deltaTime two_edges \<longrightarrow>
       \<lfloor>(b - a) / real_of_int 1\<rfloor> = int (4 div nat 2)"
    by blast+
  with i t two_edges_interval h2 show ?thesis by simp
qed

text \<open>
  C3, as it is stated, fails where \<open>deltaTime_\<close> does not divide the duration or the
  interval. With a step of half a second, a run from 0 to 3/4 and an interval of one
  second there is one checkpoint, where the claim counts none; with a step of 2 seconds,
  a run from 0 to 10 and an interval of 3 seconds there are five, where the claim counts
  three. All the numbers of both runs are binary32 numbers, and so are their sums and
  quotients.
\<close>

theorem checkpoint_count_differs:
  "deltaTime two_edges = 1 / 2 \<and>
   trace_of (simulateInGPU idle_device two_edges (Fin 0) (Fin (3 / 4)) 1) =
     Some (half_second_trace, Finished) \<and>
   count_list half_second_trace CudaGetData = 1 \<and>
   \<lfloor>(3 / 4 - 0) / real_of_int 1\<rfloor> = (0::int) \<and>
   deltaTime slow_edges = 2 \<and>
   trace_of (simulateInGPU idle_device slow_edges (Fin 0) (Fin 10) 3) =
     Some (two_second_trace, Finished) \<and>
   count_list two_second_trace CudaGetData = 5 \<and>
   \<lfloor>(10 - 0) / real_of_int 3\<rfloor> = (3::int)"
proof -
  have d: "deltaTime two_edges = 1 / 2" by (simp add: two_edges_def)
  have d2: "deltaTime slow_edges = 2" by (simp add: slow_edges_def)
  have "\<exists>s'. simulateInGPU idle_device two_edges (Fin 0) (Fin (3 / 4)) 1 =
      Some (InitCuda #
            concat (map (\<lambda>j. CudaSimulate (clock (Fin (deltaTime two_edges)) (Fin 0) j) #
                          (if nat 2 dvd j + 1
                           then [CudaGetData,
                                 SaveEdges (the (int_of_f32 (clock (Fin (deltaTime two_edges)) (Fin 0) (j + 1)))),
                                 SaveAgents (the (int_of_f32 (clock (Fin (deltaTime two_edges)) (Fin 0) (j + 1))))]
                           else [])) [0..<2]) @
            [FinishCuda], Finished, s')"
  proof (rule simulateInGPU_run [OF two_edges_interval])
    fix j :: nat
    assume "j < 2"
    then show "f32_less (clock (Fin (deltaTime two_edges)) (Fin 0) j) (Fin (3 / 4))"
      unfolding d by (simp add: half_second_clock)
  next
    show "\<not> f32_less (clock (Fin (deltaTime two_edges)) (Fin 0) 2) (Fin (3 / 4))"
      unfolding d by (simp add: half_second_clock)
  next
    fix j :: nat
    assume "j < 2"
    then have "j = 0 \<or> j = 1" by arith
    then show "int_of_f32 (clock (Fin (deltaTime two_edges)) (Fin 0) (j + 1)) \<noteq> None"
      unfolding d by (auto simp: half_second_clock trunc_def)
  qed (simp_all add: idle_sizes two_edges_mids)
  then have one: "trace_of (simulateInGPU idle_device two_edges (Fin 0) (Fin (3 / 4)) 1) =
     Some (half_second_trace, Finished)"
    unfolding d
    by (auto simp: trace_of_def half_second_trace_def upt_rec half_second_clock trunc_def)
  have "\<exists>s'. simulateInGPU idle_device slow_edges (Fin 0) (Fin 10) 3 =
      Some (InitCuda #
            concat (map (\<lambda>j. CudaSimulate (clock (Fin (deltaTime slow_edges)) (Fin 0) j) #
                          (if nat 1 dvd j + 1
                           then [CudaGetData,
                                 SaveEdges (the (int_of_f32 (clock (Fin (deltaTime slow_edges)) (Fin 0) (j + 1)))),
                                 SaveAgents (the (int_of_f32 (clock (Fin (deltaTime slow_edges)) (Fin 0) (j + 1))))]
                           else [])) [0..<5]) @
            [FinishCuda], Finished, s')"
  proof (rule simulateInGPU_run [OF slow_edges_interval])
    fix j :: nat
    assume "j < 5"
    then show "f32_less (clock (Fin (deltaTime slow_edges)) (Fin 0) j) (Fin 10)"
      unfolding d2 by (simp add: two_second_clock)
  next
    show "\<not> f32_less (clock (Fin (deltaTime slow_edges)) (Fin 0) 5) (Fin 10)"
      unfolding d2 by (simp add: two_second_clock)
  next
    fix j :: nat
    assume "j < 5"
    from less_5 [OF this]
    show "int_of_f32 (clock (Fin (deltaTime slow_edges)) (Fin 0) (j + 1)) \<noteq> None"
      unfolding d2 by (auto simp: two_second_clock trunc_def)
  qed (simp_all add: idle_sizes slow_edges_mids)
  then have two: "trace_of (simulateInGPU idle_device slow_edges (Fin 0) (Fin 10) 3) =
     Some (two_second_trace, Finished)"
    unfolding d2
    by (auto simp: trace_of_def two_second_trace_def upt_rec two_second_clock trunc_def)
  have "count_list half_second_trace CudaGetData = 1"
    by (simp add: half_second_trace_def)
  moreover have "count_list two_second_trace CudaGetData = 5"
    by (simp add: two_second_trace_def)
  ultimately show ?thesis using one two d d2 by simp
qed

text \<open>
  C7. With \<open>save_interval = 0\<close> the number of steps between checkpoints is 0 and
  nothing looks at it before the loop: on any device, a run from 0 to 10 initialises the
  device, makes one device step and then takes the step counter modulo zero; a run of no
  duration initialises the device and finishes as if nothing were wrong.
\<close>

theorem zero_interval_not_rejected:
  "num_save_steps (Fin (deltaTime line_sim)) 0 = Some 0 \<and>
   simulateInGPU dev line_sim (Fin 0) (Fin 10) 0 =
     Some ([InitCuda, CudaSimulate (Fin 0)], ModuloByZero, line_sim) \<and>
   simulateInGPU dev line_sim (Fin 0) (Fin 0) 0 =
     Some ([InitCuda, FinishCuda], Finished, line_sim)"
proof -
  have k: "num_save_steps (Fin (deltaTime line_sim)) 0 = Some 0"
    by (simp add: num_save_steps_def f32_of_int_def round32_zero line_sim_def trunc_def)
  have "simulateInGPU dev line_sim (Fin 0) (Fin 10) 0 =
     Some ([InitCuda, CudaSimulate (Fin 0)], ModuloByZero, line_sim)"
    unfolding simulateInGPU_def k by (simp add: main_loop.simps loop_body_def)
  moreover have "simulateInGPU dev line_sim (Fin 0) (Fin 0) 0 =
     Some ([InitCuda, FinishCuda], Finished, line_sim)"
    unfolding simulateInGPU_def k by (simp add: main_loop.simps)
  ultimately show ?thesis using k by simp
qed

end
